theory Spec2Isabelle
  imports Main
begin

section \<open>Data model\<close>

text \<open>
  The values that \<^verbatim>\<open>xmltodict.parse\<close> and \<^verbatim>\<open>json.loads\<close> hand to the module:
  \<^verbatim>\<open>None\<close>, strings, mappings and sequences (numbers are kept as a further kind of leaf).
  A Python dict is an association list in insertion order with pairwise distinct keys;
  the order is the one \<^verbatim>\<open>items()\<close> enumerates.
\<close>

datatype json = JNull | JStr string | JNum int | JObj "(string \<times> json) list" | JList "json list"

text \<open>
  The exceptions the module can end with. \<^verbatim>\<open>module.fail_json(msg=...)\<close> leaves the
  process (it never returns), so it is an error value carrying the message.
\<close>

datatype py_error = FailJson string | KeyError | TypeError | AttributeError | ValueError

fun and_then :: "'e + 'a \<Rightarrow> ('a \<Rightarrow> 'e + 'b) \<Rightarrow> 'e + 'b" where
  "and_then (Inl e) f = Inl e"
| "and_then (Inr v) f = f v"

text \<open>\<^verbatim>\<open>d[k] = v\<close> on a dict: an existing key keeps its place, a new one goes last.\<close>

fun setitem :: "'k \<Rightarrow> 'v \<Rightarrow> ('k \<times> 'v) list \<Rightarrow> ('k \<times> 'v) list" where
  "setitem k v [] = [(k, v)]"
| "setitem k v ((k', v') # ps) = (if k' = k then (k, v) # ps else (k', v') # setitem k v ps)"

text \<open>\<^verbatim>\<open>d.update(other)\<close> for a dict \<^verbatim>\<open>other\<close>: its items are stored one by one.\<close>

fun dict_update :: "('k \<times> 'v) list \<Rightarrow> ('k \<times> 'v) list \<Rightarrow> ('k \<times> 'v) list" where
  "dict_update d [] = d"
| "dict_update d ((k, v) # other) = dict_update (setitem k v d) other"

text \<open>
  Keys of a Fact Table: whatever hashable value the field search returned
  (\<^verbatim>\<open>None\<close>, a string, a number). A Fact Table is \<^verbatim>\<open>None\<close>, a dict or a list.
\<close>

datatype key = KNone | KStr string | KNum int

datatype fact_table = Absent | Keyed "(key \<times> json) list" | Plain "json list"

text \<open>The \<^verbatim>\<open>field\<close> argument: \<^verbatim>\<open>None\<close>, a \<^verbatim>\<open>str\<close> or a \<^verbatim>\<open>tuple\<close> of \<^verbatim>\<open>str\<close>.\<close>

datatype field = NoField | Single string | Multi "string list"

type_synonym query = "(string \<times> string) list"

text \<open>
  A response element, as far as the module looks at it: its named child containers in
  document order (\<^verbatim>\<open>get_child_by_name\<close>), each with its children (\<^verbatim>\<open>get_children\<close>).
  A child stands for the mapping \<^verbatim>\<open>xmltodict.parse(child.to_string(), xml_attribs=False)\<close>
  makes of it.
\<close>

type_synonym response = "(string \<times> json list) list"

text \<open>
  The session: \<^verbatim>\<open>invoke_successfully\<close> takes the call element (its name and the children
  added from the query), answers with a response or raises \<^verbatim>\<open>NaApiError\<close> (given by the
  text \<^verbatim>\<open>to_native\<close> makes of it), and may change the state of the remote side.
\<close>

type_synonym 's server = "'s \<Rightarrow> string \<Rightarrow> query \<Rightarrow> (string + response) \<times> 's"

type_synonym facts = "(string \<times> fact_table) list"

section \<open>Helpers of the module\<close>

subsection \<open>\<^verbatim>\<open>convert_keys\<close>\<close>

definition replace_hyphen :: "string \<Rightarrow> string" where
  "replace_hyphen k = map (\<lambda>c. if c = CHR ''-'' then CHR ''_'' else c) k"

function convert_keys :: "json \<Rightarrow> json"
  and convert_items :: "(string \<times> json) list \<Rightarrow> (string \<times> json) list \<Rightarrow> (string \<times> json) list"
where
  "convert_keys (JObj m) = JObj (convert_items m [])"
| "convert_keys JNull = JNull"
| "convert_keys (JStr s) = JStr s"
| "convert_keys (JNum n) = JNum n"
| "convert_keys (JList xs) = JList xs"
| "convert_items [] out = out"
| "convert_items ((k, v) # rest) out =
     convert_items rest (setitem (replace_hyphen k) (convert_keys v) out)"
  by pat_completeness auto
termination
  by (relation "measure (\<lambda>x. case x of Inl d \<Rightarrow> size d
                                     | Inr (m, out) \<Rightarrow> size_list (size_prod (\<lambda>_. 0) size) m)")
     auto

subsection \<open>\<^verbatim>\<open>_finditem\<close>\<close>

text \<open>
  \<open>finditem_dict\<close> is \<^verbatim>\<open>_finditem\<close> on a dict, \<open>finditem_loop\<close> its \<^verbatim>\<open>for\<close> loop over the
  items; \<open>JNull\<close> is the \<^verbatim>\<open>None\<close> it returns when nothing is found.
\<close>

function finditem_dict :: "(string \<times> json) list \<Rightarrow> string \<Rightarrow> json"
  and finditem_loop :: "(string \<times> json) list \<Rightarrow> string \<Rightarrow> json"
where
  "finditem_dict obj key =
     (case map_of obj key of Some v \<Rightarrow> v | None \<Rightarrow> finditem_loop obj key)"
| "finditem_loop [] key = JNull"
| "finditem_loop ((dummy, v) # rest) key =
     (case v of
        JObj m \<Rightarrow>
          (let item = finditem_dict m key
           in if item \<noteq> JNull then item else finditem_loop rest key)
      | _ \<Rightarrow> finditem_loop rest key)"
  by pat_completeness auto
termination
  by (relation "measure (\<lambda>x. case x of
                    Inl (m, key) \<Rightarrow> 2 * size_list (size_prod (\<lambda>_. 0) size) m + 1
                  | Inr (m, key) \<Rightarrow> 2 * size_list (size_prod (\<lambda>_. 0) size) m)")
     auto

text \<open>\<^verbatim>\<open>key in s\<close> on a string \<^verbatim>\<open>s\<close>: substring test.\<close>

fun str_contains :: "string \<Rightarrow> string \<Rightarrow> bool" where
  "str_contains [] key = (key = [])"
| "str_contains (c # cs) key = (take (length key) (c # cs) = key \<or> str_contains cs key)"

text \<open>
  \<^verbatim>\<open>_finditem\<close> on any value. On \<^verbatim>\<open>None\<close> or a number \<^verbatim>\<open>key in obj\<close> raises TypeError;
  on a string or a list that contains the key \<^verbatim>\<open>obj[key]\<close> raises TypeError, and
  otherwise \<^verbatim>\<open>obj.items()\<close> raises AttributeError.
\<close>

fun finditem :: "json \<Rightarrow> string \<Rightarrow> py_error + json" where
  "finditem (JObj m) key = Inr (finditem_dict m key)"
| "finditem JNull key = Inl TypeError"
| "finditem (JNum n) key = Inl TypeError"
| "finditem (JStr s) key = (if str_contains s key then Inl TypeError else Inl AttributeError)"
| "finditem (JList xs) key = (if JStr key \<in> set xs then Inl TypeError else Inl AttributeError)"

subsection \<open>Python primitives used by the collector\<close>

text \<open>\<^verbatim>\<open>d[name]\<close>\<close>

fun getitem :: "json \<Rightarrow> string \<Rightarrow> py_error + json" where
  "getitem (JObj m) name = (case map_of m name of None \<Rightarrow> Inl KeyError | Some v \<Rightarrow> Inr v)"
| "getitem _ name = Inl TypeError"

text \<open>Using a value as a dict key: mappings and sequences are unhashable.\<close>

fun hashable :: "json \<Rightarrow> py_error + key" where
  "hashable JNull = Inr KNone"
| "hashable (JStr s) = Inr (KStr s)"
| "hashable (JNum n) = Inr (KNum n)"
| "hashable (JObj m) = Inl TypeError"
| "hashable (JList xs) = Inl TypeError"

text \<open>\<^verbatim>\<open>[_finditem(d, el) for el in field]\<close>\<close>

fun finditem_all :: "json \<Rightarrow> string list \<Rightarrow> py_error + json list" where
  "finditem_all d [] = Inr []"
| "finditem_all d (el # els) =
     and_then (finditem d el) (\<lambda>v. and_then (finditem_all d els) (\<lambda>vs. Inr (v # vs)))"

text \<open>\<^verbatim>\<open>':'.join(values)\<close>: every item must be a string.\<close>

fun str_items :: "json list \<Rightarrow> py_error + string list" where
  "str_items [] = Inr []"
| "str_items (JStr s # vs) = and_then (str_items vs) (\<lambda>ss. Inr (s # ss))"
| "str_items (_ # vs) = Inl TypeError"

fun join_strs :: "string list \<Rightarrow> string" where
  "join_strs [] = []"
| "join_strs [s] = s"
| "join_strs (s # t # ss) = s @ '':'' @ join_strs (t # ss)"

definition join_colon :: "json list \<Rightarrow> py_error + string" where
  "join_colon vs = and_then (str_items vs) (\<lambda>ss. Inr (join_strs ss))"

text \<open>\<^verbatim>\<open>s.split(':')\<close>\<close>

fun split_colon :: "string \<Rightarrow> string list" where
  "split_colon [] = [[]]"
| "split_colon (c # cs) =
     (if c = CHR '':'' then [] # split_colon cs
      else (case split_colon cs of [] \<Rightarrow> [[c]] | w # ws \<Rightarrow> (c # w) # ws))"

text \<open>\<^verbatim>\<open>out.update({unique_key: value})\<close> and \<^verbatim>\<open>out.append(value)\<close>\<close>

fun update_out :: "fact_table \<Rightarrow> key \<Rightarrow> json \<Rightarrow> py_error + fact_table" where
  "update_out (Keyed t) k v = Inr (Keyed (setitem k v t))"
| "update_out _ k v = Inl AttributeError"

fun append_out :: "fact_table \<Rightarrow> json \<Rightarrow> py_error + fact_table" where
  "append_out (Plain xs) v = Inr (Plain (xs @ [v]))"
| "append_out _ v = Inl AttributeError"

section \<open>The collector\<close>

subsection \<open>\<^verbatim>\<open>call_api\<close>\<close>

definition call_api ::
  "'s server \<Rightarrow> string \<Rightarrow> query \<Rightarrow> 's \<Rightarrow> (py_error + response option) \<times> 's" where
  "call_api server call query s =
     (case server s call query of
        (Inr result, s') \<Rightarrow> (Inr (Some result), s')
      | (Inl e, s') \<Rightarrow>
          (if call \<in> set [''security-key-manager-key-get-iter''] then (Inr None, s')
           else (Inl (FailJson (''Error calling API '' @ call @ '': '' @ e)), s')))"

subsection \<open>\<^verbatim>\<open>get_generic_get_iter\<close>\<close>

text \<open>\<^verbatim>\<open>if attribute is not None: d = d[attribute]\<close>\<close>

definition descend :: "string option \<Rightarrow> json \<Rightarrow> py_error + json" where
  "descend attribute d = (case attribute of None \<Rightarrow> Inr d | Some a \<Rightarrow> getitem d a)"

text \<open>
  The body of the loop over the children, for one child; \<open>child\<close> is the mapping parsed
  from it. \<^verbatim>\<open>json.loads(json.dumps(d))\<close> gives \<open>d\<close> back as plain dicts and lists, the same
  value here. Hashing the key is what building \<^verbatim>\<open>{unique_key: ...}\<close> does.
\<close>

definition record_step ::
  "string option \<Rightarrow> field \<Rightarrow> fact_table \<Rightarrow> json \<Rightarrow> py_error + fact_table" where
  "record_step attribute fld out child =
     and_then (descend attribute child) (\<lambda>d.
       case fld of
         Single f \<Rightarrow>
           and_then (finditem d f) (\<lambda>unique_key.
           and_then (hashable unique_key) (\<lambda>k. update_out out k (convert_keys d)))
       | Multi fs \<Rightarrow>
           and_then (finditem_all d fs) (\<lambda>vs.
           and_then (join_colon vs) (\<lambda>unique_key. update_out out (KStr unique_key) (convert_keys d)))
       | NoField \<Rightarrow> append_out out (convert_keys d))"

fun iter_children ::
  "string option \<Rightarrow> field \<Rightarrow> json list \<Rightarrow> fact_table \<Rightarrow> py_error + fact_table" where
  "iter_children attribute fld [] out = Inr out"
| "iter_children attribute fld (child # rest) out =
     and_then (record_step attribute fld out child) (iter_children attribute fld rest)"

definition new_out :: "field \<Rightarrow> fact_table" where
  "new_out fld = (case fld of NoField \<Rightarrow> Plain [] | _ \<Rightarrow> Keyed [])"

definition get_generic_get_iter ::
  "'s server \<Rightarrow> string \<Rightarrow> string option \<Rightarrow> field \<Rightarrow> query \<Rightarrow> string \<Rightarrow> 's
     \<Rightarrow> (py_error + fact_table) \<times> 's" where
  "get_generic_get_iter server call attribute fld query children s =
     (case call_api server call query s of
        (Inl e, s') \<Rightarrow> (Inl e, s')
      | (Inr None, s') \<Rightarrow> (Inr Absent, s')
      | (Inr (Some generic_call), s') \<Rightarrow>
          (case map_of generic_call children of
             None \<Rightarrow> (Inr Absent, s')
           | Some attributes_list \<Rightarrow>
               (iter_children attribute fld attributes_list (new_out fld), s')))"

subsection \<open>\<^verbatim>\<open>get_ifgrp_info\<close>\<close>

text \<open>The first loop: the keys whose record has \<^verbatim>\<open>port_type == 'if_group'\<close>.\<close>

fun select_ifgrps :: "(key \<times> json) list \<Rightarrow> py_error + key list" where
  "select_ifgrps [] = Inr []"
| "select_ifgrps ((ifn, port) # rest) =
     and_then (getitem port ''port_type'') (\<lambda>t.
     and_then (select_ifgrps rest) (\<lambda>ifgrps.
       Inr (if t = JStr ''if_group'' then ifn # ifgrps else ifgrps)))"

text \<open>\<^verbatim>\<open>query['node'], query['ifgrp-name'] = ifgrp.split(':')\<close>\<close>

fun ifgrp_query :: "key \<Rightarrow> py_error + query" where
  "ifgrp_query (KStr ifgrp) =
     (case split_colon ifgrp of
        [node, name] \<Rightarrow> Inr [(''node'', node), (''ifgrp-name'', name)]
      | _ \<Rightarrow> Inl ValueError)"
| "ifgrp_query _ = Inl AttributeError"

text \<open>
  \<^verbatim>\<open>net_ifgrp_info.update(tmp)\<close>: \<^verbatim>\<open>tmp\<close> is a dict or \<^verbatim>\<open>None\<close> here, since the lookup
  is made with a tuple of key fields.
\<close>

fun merge_ifgrp :: "(key \<times> json) list \<Rightarrow> fact_table \<Rightarrow> py_error + (key \<times> json) list" where
  "merge_ifgrp net_ifgrp_info (Keyed tmp) = Inr (dict_update net_ifgrp_info tmp)"
| "merge_ifgrp net_ifgrp_info _ = Inl TypeError"

fun ifgrp_loop ::
  "'s server \<Rightarrow> key list \<Rightarrow> (key \<times> json) list \<Rightarrow> 's \<Rightarrow> (py_error + (key \<times> json) list) \<times> 's" where
  "ifgrp_loop server [] net_ifgrp_info s = (Inr net_ifgrp_info, s)"
| "ifgrp_loop server (ifgrp # rest) net_ifgrp_info s =
     (case ifgrp_query ifgrp of
        Inl e \<Rightarrow> (Inl e, s)
      | Inr query \<Rightarrow>
          (case get_generic_get_iter server ''net-port-ifgrp-get'' (Some ''net-ifgrp-info'')
                  (Multi [''node'', ''ifgrp-name'']) query ''attributes'' s of
             (Inl e, s') \<Rightarrow> (Inl e, s')
           | (Inr tmp, s') \<Rightarrow>
               (case merge_ifgrp net_ifgrp_info tmp of
                  Inl e \<Rightarrow> (Inl e, s')
                | Inr merged \<Rightarrow> ifgrp_loop server rest merged s')))"

definition get_ifgrp_info :: "'s server \<Rightarrow> facts \<Rightarrow> 's \<Rightarrow> (py_error + fact_table) \<times> 's" where
  "get_ifgrp_info server netapp_info s =
     (case map_of netapp_info ''net_port_info'' of
        None \<Rightarrow> (Inl KeyError, s)
      | Some Absent \<Rightarrow> (Inl AttributeError, s)
      | Some (Plain xs) \<Rightarrow> (Inl AttributeError, s)
      | Some (Keyed net_port_info) \<Rightarrow>
          (case select_ifgrps net_port_info of
             Inl e \<Rightarrow> (Inl e, s)
           | Inr ifgrps \<Rightarrow>
               (case ifgrp_loop server ifgrps [] s of
                  (Inl e, s') \<Rightarrow> (Inl e, s')
                | (Inr net_ifgrp_info, s') \<Rightarrow> (Inr (Keyed net_ifgrp_info), s'))))"

subsection \<open>\<^verbatim>\<open>get_all\<close>\<close>

text \<open>
  The assignments of \<^verbatim>\<open>get_all\<close>, in the order of the source. Each is either
  \<^verbatim>\<open>netapp_info[category] = get_generic_get_iter(call, attribute=..., field=...,
  query={'max-records': '1024'})\<close> or \<^verbatim>\<open>netapp_info[category] = get_ifgrp_info()\<close>.
\<close>

datatype step = GetIter string string string field | IfgrpInfo string

definition catalog :: "step list" where
  "catalog =
    [GetIter ''net_interface_info'' ''net-interface-get-iter'' ''net-interface-info''
       (Single ''interface-name''),
     GetIter ''net_port_info'' ''net-port-get-iter'' ''net-port-info''
       (Multi [''node'', ''port'']),
     GetIter ''cluster_node_info'' ''cluster-node-get-iter'' ''cluster-node-info''
       (Single ''node-name''),
     GetIter ''security_login_account_info'' ''security-login-get-iter''
       ''security-login-account-info''
       (Multi [''user-name'', ''application'', ''authentication-method'']),
     GetIter ''aggregate_info'' ''aggr-get-iter'' ''aggr-attributes''
       (Single ''aggregate-name''),
     GetIter ''volume_info'' ''volume-get-iter'' ''volume-attributes''
       (Multi [''name'', ''owning-vserver-name'', ''aggr-name'']),
     GetIter ''lun_info'' ''lun-get-iter'' ''lun-info'' (Single ''path''),
     GetIter ''storage_failover_info'' ''cf-get-iter'' ''storage-failover-info''
       (Single ''node''),
     IfgrpInfo ''net_ifgrp_info'',
     GetIter ''vserver_motd_info'' ''vserver-motd-get-iter'' ''vserver-motd-info''
       (Single ''vserver''),
     GetIter ''vserver_login_banner_info'' ''vserver-login-banner-get-iter''
       ''vserver-login-banner-info'' (Single ''vserver''),
     GetIter ''security_key_manager_key_info'' ''security-key-manager-key-get-iter''
       ''security-key-manager-key-info'' (Multi [''node'', ''key-id'']),
     GetIter ''vserver_info'' ''vserver-get-iter'' ''vserver-info''
       (Single ''vserver-name'')]"

definition max_records :: query where
  "max_records = [(''max-records'', ''1024'')]"

fun run_step :: "'s server \<Rightarrow> step \<Rightarrow> facts \<Rightarrow> 's \<Rightarrow> (py_error + facts) \<times> 's" where
  "run_step server (GetIter category call attribute fld) netapp_info s =
     (case get_generic_get_iter server call (Some attribute) fld max_records
             ''attributes-list'' s of
        (Inl e, s') \<Rightarrow> (Inl e, s')
      | (Inr t, s') \<Rightarrow> (Inr (setitem category t netapp_info), s'))"
| "run_step server (IfgrpInfo category) netapp_info s =
     (case get_ifgrp_info server netapp_info s of
        (Inl e, s') \<Rightarrow> (Inl e, s')
      | (Inr t, s') \<Rightarrow> (Inr (setitem category t netapp_info), s'))"

fun run_steps :: "'s server \<Rightarrow> step list \<Rightarrow> facts \<Rightarrow> 's \<Rightarrow> (py_error + facts) \<times> 's" where
  "run_steps server [] netapp_info s = (Inr netapp_info, s)"
| "run_steps server (st # rest) netapp_info s =
     (case run_step server st netapp_info s of
        (Inl e, s') \<Rightarrow> (Inl e, s')
      | (Inr netapp_info', s') \<Rightarrow> run_steps server rest netapp_info' s')"

definition get_all :: "'s server \<Rightarrow> 's \<Rightarrow> (py_error + facts) \<times> 's" where
  "get_all server s = run_steps server catalog [] s"

section \<open>Notions used to state the properties\<close>

text \<open>
  The field search as the specification words it: the value under the key at the current
  mapping if the key is present; otherwise the first match of a depth-first traversal of
  the child mappings in their order of appearance. \<open>None\<close> is "no match".
\<close>

fun spec_finditem :: "(string \<times> json) list \<Rightarrow> string \<Rightarrow> json option"
  and spec_children :: "(string \<times> json) list \<Rightarrow> string \<Rightarrow> json option"
where
  "spec_finditem obj key =
     (case map_of obj key of Some v \<Rightarrow> Some v | None \<Rightarrow> spec_children obj key)"
| "spec_children [] key = None"
| "spec_children ((name, v) # rest) key =
     (case v of
        JObj m \<Rightarrow>
          (case spec_finditem m key of Some x \<Rightarrow> Some x | None \<Rightarrow> spec_children rest key)
      | _ \<Rightarrow> spec_children rest key)"

text \<open>No mapping nested (through mappings) in the value binds the key to \<^verbatim>\<open>None\<close>.\<close>

fun null_free :: "string \<Rightarrow> json \<Rightarrow> bool" where
  "null_free key (JObj m) =
     (map_of m key \<noteq> Some JNull \<and> (\<forall>(name, v) \<in> set m. null_free key v))"
| "null_free key _ = True"

text \<open>The key is a field name somewhere in the value.\<close>

fun occurs :: "string \<Rightarrow> json \<Rightarrow> bool" where
  "occurs key (JObj m) = (key \<in> fst ` set m \<or> (\<exists>(name, v) \<in> set m. occurs key v))"
| "occurs key (JList xs) = (\<exists>v \<in> set xs. occurs key v)"
| "occurs key _ = False"

text \<open>No field name of the value, at any depth, contains a hyphen.\<close>

fun keys_underscored :: "json \<Rightarrow> bool" where
  "keys_underscored (JObj m) = (\<forall>(k, v) \<in> set m. CHR ''-'' \<notin> set k \<and> keys_underscored v)"
| "keys_underscored (JList xs) = (\<forall>v \<in> set xs. keys_underscored v)"
| "keys_underscored _ = True"

text \<open>The value holds no sequence at any depth.\<close>

fun sequence_free :: "json \<Rightarrow> bool" where
  "sequence_free (JObj m) = (\<forall>(k, v) \<in> set m. sequence_free v)"
| "sequence_free (JList xs) = False"
| "sequence_free _ = True"

fun step_category :: "step \<Rightarrow> string" where
  "step_category (GetIter category call attribute fld) = category"
| "step_category (IfgrpInfo category) = category"

text \<open>A session that also keeps the list of the calls sent to it, oldest first.\<close>

definition recording :: "'s server \<Rightarrow> ('s \<times> (string \<times> query) list) server" where
  "recording server =
     (\<lambda>(s, log) call query.
        case server s call query of (r, s') \<Rightarrow> (r, (s', log @ [(call, query)])))"

section \<open>Sample sessions\<close>

text \<open>
  Two network ports of one node, the first an interface group; the details of an interface
  group; an aggregate with two plexes (a repeated element, so a sequence).
\<close>

definition port_record :: "string \<Rightarrow> string \<Rightarrow> string \<Rightarrow> json" where
  "port_record node port port_type =
     JObj [(''net-port-info'',
       JObj [(''node'', JStr node), (''port'', JStr port), (''port-type'', JStr port_type)])]"

definition ifgrp_record :: "string \<Rightarrow> string \<Rightarrow> json" where
  "ifgrp_record node name =
     JObj [(''net-ifgrp-info'',
       JObj [(''ifgrp-name'', JStr name), (''node'', JStr node), (''mode'', JStr ''multimode'')])]"

definition aggr_record :: json where
  "aggr_record =
     JObj [(''aggr-attributes'',
       JObj [(''aggregate-name'', JStr ''aggr1''),
             (''aggr-raid-attributes'',
                JObj [(''plexes'',
                  JObj [(''plex-attributes'',
                    JList [JObj [(''plex-name'', JStr ''plex0'')],
                           JObj [(''plex-name'', JStr ''plex1'')]])])])])]"

text \<open>
  A session without state that fails on the call \<open>bad\<close> and answers every other call:
  the two ports, the aggregate, the interface group asked for, and an empty list of
  records for the rest.
\<close>

definition sample_server :: "string \<Rightarrow> unit server" where
  "sample_server bad s call query =
     (if call = bad then (Inl ''13005:Unable to find API'', s)
      else if call = ''net-port-get-iter'' then
        (Inr [(''attributes-list'',
               [port_record ''nodeA'' ''a0a'' ''if_group'',
                port_record ''nodeA'' ''e0c'' ''physical''])], s)
      else if call = ''net-port-ifgrp-get'' then
        (case (map_of query ''node'', map_of query ''ifgrp-name'') of
           (Some node, Some name) \<Rightarrow> (Inr [(''attributes'', [ifgrp_record node name])], s)
         | _ \<Rightarrow> (Inl ''13006:Missing input'', s))
      else if call = ''aggr-get-iter'' then (Inr [(''attributes-list'', [aggr_record])], s)
      else (Inr [(''attributes-list'', [])], s))"

text \<open>A session whose every answer has no container of records (zero records).\<close>

definition bare_server :: "unit server" where
  "bare_server s call query = (Inr [(''num-records'', [])], s)"

text \<open>
  A session whose only network port comes without the \<^verbatim>\<open>port-type\<close> field; every other
  call gets an empty list of records.
\<close>

definition untyped_port_server :: "unit server" where
  "untyped_port_server s call query =
     (if call = ''net-port-get-iter'' then
        (Inr [(''attributes-list'',
               [JObj [(''net-port-info'',
                  JObj [(''node'', JStr ''nodeA''), (''port'', JStr ''e0c'')])]])], s)
      else (Inr [(''attributes-list'', [])], s))"

text \<open>
  The Fact Set of a run against \<open>sample_server\<close> when the key-manager call is the one
  that fails.
\<close>

definition sample_facts :: facts where
  "sample_facts =
    [(''net_interface_info'', Keyed []),
     (''net_port_info'',
        Keyed [(KStr ''nodeA:a0a'',
                  JObj [(''node'', JStr ''nodeA''), (''port'', JStr ''a0a''),
                        (''port_type'', JStr ''if_group'')]),
               (KStr ''nodeA:e0c'',
                  JObj [(''node'', JStr ''nodeA''), (''port'', JStr ''e0c''),
                        (''port_type'', JStr ''physical'')])]),
     (''cluster_node_info'', Keyed []),
     (''security_login_account_info'', Keyed []),
     (''aggregate_info'',
        Keyed [(KStr ''aggr1'',
                  JObj [(''aggregate_name'', JStr ''aggr1''),
                        (''aggr_raid_attributes'',
                           JObj [(''plexes'',
                             JObj [(''plex_attributes'',
                               JList [JObj [(''plex-name'', JStr ''plex0'')],
                                      JObj [(''plex-name'', JStr ''plex1'')]])])])])]),
     (''volume_info'', Keyed []),
     (''lun_info'', Keyed []),
     (''storage_failover_info'', Keyed []),
     (''net_ifgrp_info'',
        Keyed [(KStr ''nodeA:a0a'',
                  JObj [(''ifgrp_name'', JStr ''a0a''), (''node'', JStr ''nodeA''),
                        (''mode'', JStr ''multimode'')])]),
     (''vserver_motd_info'', Keyed []),
     (''vserver_login_banner_info'', Keyed []),
     (''security_key_manager_key_info'', Absent),
     (''vserver_info'', Keyed [])]"

section \<open>Association lists as dicts\<close>

lemma map_of_setitem: "map_of (setitem k v d) = (map_of d)(k \<mapsto> v)"
  by (induction d) (auto simp: fun_eq_iff)

lemma keys_setitem:
  "map fst (setitem k v d) = (if k \<in> fst ` set d then map fst d else map fst d @ [k])"
  by (induction d) force+

lemma finditem_loop_filter:
  "finditem_loop obj key =
     (case filter (\<lambda>r. r \<noteq> JNull)
             (map (\<lambda>(name, v). case v of JObj m \<Rightarrow> finditem_dict m key | _ \<Rightarrow> JNull) obj) of
        [] \<Rightarrow> JNull | r # _ \<Rightarrow> r)"
  by (induction obj) (auto split: json.splits simp: Let_def)

declare finditem_dict.simps [simp del] spec_finditem.simps [simp del]

lemma finditem_matches_spec:
  "(\<forall>(name, v) \<in> set obj. null_free key v) \<Longrightarrow>
     finditem_dict obj key = (case spec_finditem obj key of Some v \<Rightarrow> v | None \<Rightarrow> JNull)
     \<and> (map_of obj key \<noteq> Some JNull \<longrightarrow> spec_finditem obj key \<noteq> Some JNull)"
  "(\<forall>(name, v) \<in> set obj. null_free key v) \<Longrightarrow>
     finditem_loop obj key = (case spec_children obj key of Some v \<Rightarrow> v | None \<Rightarrow> JNull)
     \<and> spec_children obj key \<noteq> Some JNull"
proof (induction obj key and obj key rule: finditem_dict_finditem_loop.induct)
  case (1 obj key)
  show ?case
  proof (cases "map_of obj key")
    case None
    with 1 show ?thesis by (simp add: finditem_dict.simps spec_finditem.simps)
  next
    case (Some v)
    then show ?thesis by (simp add: finditem_dict.simps spec_finditem.simps)
  qed
next
  case (2 key)
  then show ?case by simp
next
  case (3 dummy v rest key)
  from "3.prems" have nf_rest: "\<forall>(name, v) \<in> set rest. null_free key v" by simp
  show ?case
  proof (cases v)
    case (JObj m)
    from "3.prems" JObj have nf_m: "\<forall>(name, v) \<in> set m. null_free key v"
      and top: "map_of m key \<noteq> Some JNull" by auto
    from "3.IH"(4)[OF JObj nf_m] top
    have eq: "finditem_dict m key = (case spec_finditem m key of Some v \<Rightarrow> v | None \<Rightarrow> JNull)"
      and nn: "spec_finditem m key \<noteq> Some JNull" by auto
    show ?thesis
    proof (cases "spec_finditem m key")
      case None
      with eq have "finditem_dict m key = JNull" by simp
      with "3.IH"(5)[OF JObj refl _ nf_rest] JObj None show ?thesis by simp
    next
      case (Some x)
      with eq nn have "finditem_dict m key = x" "x \<noteq> JNull" by auto
      with JObj Some show ?thesis by simp
    qed
  next
    case JNull
    with "3.IH"(1)[OF JNull nf_rest] show ?thesis by simp
  next
    case (JStr s)
    with "3.IH"(2)[OF JStr nf_rest] show ?thesis by simp
  next
    case (JNum n)
    with "3.IH"(3)[OF JNum nf_rest] show ?thesis by simp
  next
    case (JList xs)
    with "3.IH"(6)[OF JList nf_rest] show ?thesis by simp
  qed
qed

section \<open>Normalising the records of a response\<close>

lemma and_then_eq_Inr: "and_then r f = Inr y \<longleftrightarrow> (\<exists>v. r = Inr v \<and> f v = Inr y)"
  by (cases r) auto

lemma and_then_eq_Inl: "and_then r f = Inl e \<longleftrightarrow> r = Inl e \<or> (\<exists>v. r = Inr v \<and> f v = Inl e)"
  by (cases r) auto

lemma update_out_eq_Inr: "update_out out k v = Inr out' \<longleftrightarrow> (\<exists>t. out = Keyed t \<and> out' = Keyed (setitem k v t))"
  by (cases out) auto

lemma record_step_entry:
  assumes "record_step attribute fld (Keyed []) child = Inr (Keyed [(k, v)])"
  shows "record_step attribute fld (Keyed t) child = Inr (Keyed (setitem k v t))"
  using assms
  by (cases fld) (auto simp: record_step_def and_then_eq_Inr)

lemma iter_children_entries:
  assumes "list_all2 (\<lambda>child (k, v). record_step attribute fld (Keyed []) child = Inr (Keyed [(k, v)]))
             children entries"
  shows "iter_children attribute fld children (Keyed t) = Inr (Keyed (dict_update t entries))"
  using assms
proof (induction children entries arbitrary: t rule: list_all2_induct)
  case Nil
  then show ?case by simp
next
  case (Cons child children kv entries)
  then show ?case by (cases kv) (simp add: record_step_entry)
qed

lemma map_of_dict_update: "map_of (dict_update d other) = map_of d ++ map_of (rev other)"
proof (induction other arbitrary: d)
  case Nil
  then show ?case by simp
next
  case (Cons kv other)
  obtain k v where kv: "kv = (k, v)" by (cases kv)
  have "map_of (rev other @ [(k, v)]) = map_of [(k, v)] ++ map_of (rev other)"
    by (simp only: map_of_append)
  then show ?case using Cons kv by (simp add: map_of_setitem fun_eq_iff map_add_def split: option.splits)
qed

lemma map_of_rev_last:
  assumes "j < length entries" "\<forall>l. j < l \<and> l < length entries \<longrightarrow> fst (entries ! l) \<noteq> fst (entries ! j)"
  shows "map_of (rev entries) (fst (entries ! j)) = Some (snd (entries ! j))"
  using assms
proof (induction entries arbitrary: j rule: rev_induct)
  case Nil
  then show ?case by simp
next
  case (snoc kv entries)
  show ?case
  proof (cases "j = length entries")
    case True
    then show ?thesis by (cases kv) simp
  next
    case False
    with snoc.prems have j: "j < length entries" by simp
    from snoc.prems(2) j have ne: "fst kv \<noteq> fst (entries ! j)"
      by (auto simp: nth_append dest: spec[where x="length entries"])
    have "\<forall>l. j < l \<and> l < length entries \<longrightarrow> fst (entries ! l) \<noteq> fst (entries ! j)"
    proof (intro allI impI)
      fix l assume l: "j < l \<and> l < length entries"
      with snoc.prems(2)[rule_format, of l] j show "fst (entries ! l) \<noteq> fst (entries ! j)"
        by (simp add: nth_append)
    qed
    from snoc.IH[OF j this] ne j show ?thesis by (cases kv) (auto simp: nth_append)
  qed
qed

lemma keys_dict_update_distinct: "distinct (map fst d) \<Longrightarrow> distinct (map fst (dict_update d other))"
  by (induction other arbitrary: d) (auto simp: keys_setitem)

section \<open>The run\<close>

lemma call_api_failure:
  "server s call query = (Inl e, s') \<Longrightarrow>
     call_api server call query s =
       (if call = ''security-key-manager-key-get-iter'' then (Inr None, s')
        else (Inl (FailJson (''Error calling API '' @ call @ '': '' @ e)), s'))"
  by (simp add: call_api_def)

lemma generic_get_iter_failure:
  "server s call query = (Inl e, s') \<Longrightarrow>
     get_generic_get_iter server call attribute fld query children s =
       (if call = ''security-key-manager-key-get-iter'' then (Inr Absent, s')
        else (Inl (FailJson (''Error calling API '' @ call @ '': '' @ e)), s'))"
  by (simp add: get_generic_get_iter_def call_api_failure)

lemma generic_get_iter_no_response:
  "call_api server call query s = (Inr None, s') \<Longrightarrow>
     get_generic_get_iter server call attribute fld query children s = (Inr Absent, s')"
  by (simp add: get_generic_get_iter_def)

lemma run_steps_append:
  "run_steps server (before @ after) info s =
     (case run_steps server before info s of
        (Inl e, s') \<Rightarrow> (Inl e, s')
      | (Inr info', s') \<Rightarrow> run_steps server after info' s')"
  by (induction before arbitrary: info s) (auto split: prod.splits sum.splits)

lemma get_all_at:
  assumes "i < length catalog"
    and "run_steps server (take i catalog) [] s0 = (Inr info, s1)"
  shows "get_all server s0 =
           (case run_step server (catalog ! i) info s1 of
              (Inl e, s') \<Rightarrow> (Inl e, s')
            | (Inr info', s') \<Rightarrow> run_steps server (drop (Suc i) catalog) info' s')"
proof -
  have "catalog = take i catalog @ (catalog ! i # drop (Suc i) catalog)"
    using assms(1) by (simp add: id_take_nth_drop)
  then have "get_all server s0 =
      run_steps server (take i catalog @ (catalog ! i # drop (Suc i) catalog)) [] s0"
    by (simp add: get_all_def)
  also have "\<dots> = run_steps server (catalog ! i # drop (Suc i) catalog) info s1"
    using assms(2) by (simp only: run_steps_append) simp
  finally show ?thesis by simp
qed

lemma length_catalog: "length catalog = 13"
  by (simp add: catalog_def)

lemma catalog_key_manager:
  assumes "i < length catalog"
    and "catalog ! i = GetIter category ''security-key-manager-key-get-iter'' attribute fld"
  shows "i = 11 \<and> category = ''security_key_manager_key_info''"
proof -
  have "\<forall>j<13. catalog ! j = GetIter category ''security-key-manager-key-get-iter'' attribute fld
          \<longrightarrow> j = 11 \<and> category = ''security_key_manager_key_info''"
    unfolding catalog_def by (simp add: numeral_eq_Suc All_less_Suc)
  with assms show ?thesis by (simp add: length_catalog)
qed

lemma catalog_after_key_manager:
  "drop 12 catalog = [GetIter ''vserver_info'' ''vserver-get-iter'' ''vserver-info'' (Single ''vserver-name'')]"
  by (simp add: catalog_def)

lemma run_step_sets_category:
  "run_step server st info s = (Inr info', s') \<Longrightarrow> \<exists>t. info' = setitem (step_category st) t info"
  by (cases st) (auto split: prod.splits sum.splits)

lemma run_steps_keeps:
  "run_steps server steps info s = (Inr info', s') \<Longrightarrow> c \<notin> step_category ` set steps \<Longrightarrow>
     map_of info' c = map_of info c"
proof (induction steps arbitrary: info s)
  case Nil
  then show ?case by simp
next
  case (Cons st steps)
  from Cons.prems(1) obtain info1 s1 where
    st: "run_step server st info s = (Inr info1, s1)"
    and rest: "run_steps server steps info1 s1 = (Inr info', s')"
    by (auto split: prod.splits sum.splits)
  from run_step_sets_category[OF st] obtain t where "info1 = setitem (step_category st) t info" ..
  moreover from Cons.prems(2) have "c \<noteq> step_category st" "c \<notin> step_category ` set steps" by auto
  ultimately show ?case using Cons.IH[OF rest] by (simp add: map_of_setitem)
qed

lemma distinct_categories: "distinct (map step_category catalog)"
  by (simp add: catalog_def)

lemma category_not_set_later:
  assumes "i < length catalog"
  shows "step_category (catalog ! i) \<notin> step_category ` set (drop (Suc i) catalog)"
proof -
  have "catalog = take i catalog @ (catalog ! i # drop (Suc i) catalog)"
    using assms by (simp add: id_take_nth_drop)
  then have "distinct (map step_category (take i catalog @ (catalog ! i # drop (Suc i) catalog)))"
    using distinct_categories by simp
  then show ?thesis by (simp del: append_take_drop_id)
qed

text \<open>
  Claim C1. Suppose the run has reached a call of the catalog and the session raises the
  API error \<open>e\<close> on it. Exactly when the call is \<^verbatim>\<open>security-key-manager-key-get-iter\<close> the
  failure is downgraded: \<open>call_api\<close> returns \<^verbatim>\<open>None\<close>, the category
  \<^verbatim>\<open>security_key_manager_key_info\<close> is stored as \<^verbatim>\<open>None\<close>, and the run goes on with the one
  call that is left, completing when that call does. For every other call the same error
  ends the run with \<^verbatim>\<open>fail_json\<close>.
\<close>

theorem key_manager_failure_downgraded:
  assumes "i < length catalog"
    and "catalog ! i = GetIter category call attribute fld"
    and "run_steps server (take i catalog) [] s0 = (Inr info, s1)"
    and "server s1 call max_records = (Inl e, s2)"
  shows "if call = ''security-key-manager-key-get-iter''
         then call_api server call max_records s1 = (Inr None, s2)
            \<and> category = ''security_key_manager_key_info''
            \<and> get_all server s0 =
                (case get_generic_get_iter server ''vserver-get-iter'' (Some ''vserver-info'')
                        (Single ''vserver-name'') max_records ''attributes-list'' s2 of
                   (Inl err, s3) \<Rightarrow> (Inl err, s3)
                 | (Inr t, s3) \<Rightarrow>
                     (Inr (setitem ''vserver_info'' t
                            (setitem ''security_key_manager_key_info'' Absent info)), s3))
         else call_api server call max_records s1 =
                (Inl (FailJson (''Error calling API '' @ call @ '': '' @ e)), s2)
            \<and> get_all server s0 =
                (Inl (FailJson (''Error calling API '' @ call @ '': '' @ e)), s2)"
proof (cases "call = ''security-key-manager-key-get-iter''")
  case True
  with catalog_key_manager[OF assms(1)] assms(2)
  have i: "i = 11" and cat: "category = ''security_key_manager_key_info''" by auto
  have step: "run_step server (catalog ! i) info s1 = (Inr (setitem category Absent info), s2)"
    using assms(2,4) True by (simp add: generic_get_iter_failure)
  have "get_all server s0 = run_steps server (drop 12 catalog) (setitem category Absent info) s2"
    using get_all_at[OF assms(1,3)] step i by simp
  then show ?thesis
    using True cat assms(4)
    by (simp add: catalog_after_key_manager call_api_failure split: prod.splits sum.splits)
next
  case False
  have step: "run_step server (catalog ! i) info s1 =
      (Inl (FailJson (''Error calling API '' @ call @ '': '' @ e)), s2)"
    using assms(2,4) False by (simp add: generic_get_iter_failure)
  show ?thesis
    using get_all_at[OF assms(1,3)] step False assms(4) by (simp add: call_api_failure)
qed

lemmas sample_defs =
  sample_server_def port_record_def ifgrp_record_def aggr_record_def max_records_def
  get_generic_get_iter_def call_api_def get_ifgrp_info_def record_step_def descend_def
  new_out_def join_colon_def replace_hyphen_def finditem_dict.simps

lemma sample_run_before_key_manager:
  "run_steps (sample_server ''security-key-manager-key-get-iter'') (take 11 catalog) [] ()
     = (Inr (take 11 sample_facts), ())"
  by (simp add: catalog_def sample_facts_def sample_defs)

text \<open>A run against the sample session with the key-manager call failing.\<close>

theorem key_manager_failure_downgraded_witness:
  "call_api (sample_server ''security-key-manager-key-get-iter'')
      ''security-key-manager-key-get-iter'' max_records () = (Inr None, ())
   \<and> get_all (sample_server ''security-key-manager-key-get-iter'') () = (Inr sample_facts, ())
   \<and> map_of sample_facts ''security_key_manager_key_info'' = Some Absent"
proof -
  have i: "11 < length catalog" by (simp add: length_catalog)
  have st: "catalog ! 11 = GetIter ''security_key_manager_key_info''
      ''security-key-manager-key-get-iter'' ''security-key-manager-key-info''
      (Multi [''node'', ''key-id''])"
    by (simp add: catalog_def)
  have fail: "sample_server ''security-key-manager-key-get-iter'' ()
      ''security-key-manager-key-get-iter'' max_records = (Inl ''13005:Unable to find API'', ())"
    by (simp add: sample_server_def)
  from key_manager_failure_downgraded[OF i st sample_run_before_key_manager fail]
  show ?thesis
    by (simp add: sample_facts_def sample_defs)
qed

section \<open>The field search\<close>

text \<open>
  Claim C7, as stated, fails: read as "the first mapping in depth-first order that has the
  key wins", the search of \<^verbatim>\<open>{"a": {"k": None}, "b": {"k": "x"}}\<close> for \<^verbatim>\<open>k\<close> would
  end at the first child with \<^verbatim>\<open>None\<close>; \<^verbatim>\<open>_finditem\<close> goes on and returns \<^verbatim>\<open>"x"\<close>.
\<close>

theorem finditem_skips_null_match:
  "finditem_dict [(''a'', JObj [(''k'', JNull)]), (''b'', JObj [(''k'', JStr ''x'')])] ''k''
     = JStr ''x''
   \<and> spec_finditem [(''a'', JObj [(''k'', JNull)]), (''b'', JObj [(''k'', JStr ''x'')])] ''k''
     = Some JNull"
  by (simp add: finditem_dict.simps spec_finditem.simps)

text \<open>
  Claim C7, amended. The search returns the value under the key at the current mapping
  when the key is present there (whatever the value, \<^verbatim>\<open>None\<close> included); otherwise the
  first result other than \<^verbatim>\<open>None\<close> among the searches of the child mappings, taken in
  their order of appearance, and \<^verbatim>\<open>None\<close> when there is none. So a nested occurrence
  bound to \<^verbatim>\<open>None\<close> is passed over. When no nested mapping binds the key to \<^verbatim>\<open>None\<close> this
  is the first match of the depth-first, parent-first traversal.
\<close>

theorem finditem_parent_first_then_first_found:
  "(map_of obj key = Some v \<longrightarrow> finditem_dict obj key = v)
   \<and> (map_of obj key = None \<longrightarrow>
        finditem_dict obj key =
          (case filter (\<lambda>r. r \<noteq> JNull)
                  (map (\<lambda>(name, v). case v of JObj m \<Rightarrow> finditem_dict m key | _ \<Rightarrow> JNull) obj) of
             [] \<Rightarrow> JNull | r # _ \<Rightarrow> r))
   \<and> ((\<forall>(name, v) \<in> set obj. null_free key v) \<longrightarrow>
        finditem_dict obj key = (case spec_finditem obj key of Some v \<Rightarrow> v | None \<Rightarrow> JNull))"
proof (intro conjI impI)
  assume "map_of obj key = Some v"
  then show "finditem_dict obj key = v" by (simp add: finditem_dict.simps)
next
  assume "map_of obj key = None"
  then have "finditem_dict obj key = finditem_loop obj key" by (simp add: finditem_dict.simps)
  then show "finditem_dict obj key =
          (case filter (\<lambda>r. r \<noteq> JNull)
                  (map (\<lambda>(name, v). case v of JObj m \<Rightarrow> finditem_dict m key | _ \<Rightarrow> JNull) obj) of
             [] \<Rightarrow> JNull | r # _ \<Rightarrow> r)"
    by (simp only: finditem_loop_filter)
next
  assume "\<forall>(name, v) \<in> set obj. null_free key v"
  from finditem_matches_spec(1)[OF this]
  show "finditem_dict obj key = (case spec_finditem obj key of Some v \<Rightarrow> v | None \<Rightarrow> JNull)"
    by simp
qed

text \<open>
  The three parts on small mappings: the key at the top bound to \<^verbatim>\<open>None\<close>, a nested
  \<^verbatim>\<open>None\<close> passed over, and a match two levels down in the first child.
\<close>

theorem finditem_parent_first_then_first_found_witness:
  "finditem_dict [(''k'', JNull), (''a'', JObj [(''k'', JStr ''x'')])] ''k'' = JNull
   \<and> finditem_dict [(''a'', JObj [(''k'', JNull)]), (''b'', JObj [(''k'', JStr ''x'')])] ''k''
       = JStr ''x''
   \<and> finditem_dict [(''a'', JObj [(''c'', JObj [(''k'', JStr ''deep'')])]),
                     (''b'', JObj [(''k'', JStr ''x'')])] ''k'' = JStr ''deep''"
proof -
  have a: "map_of [(''k'', JNull), (''a'', JObj [(''k'', JStr ''x'')])] ''k'' = Some JNull"
    by simp
  have b: "map_of [(''a'', JObj [(''k'', JNull)]), (''b'', JObj [(''k'', JStr ''x'')])] ''k''
      = None" by simp
  have c: "\<forall>(name, v) \<in> set [(''a'', JObj [(''c'', JObj [(''k'', JStr ''deep'')])]),
                     (''b'', JObj [(''k'', JStr ''x'')])]. null_free ''k'' v" by simp
  from finditem_parent_first_then_first_found[THEN conjunct1, THEN mp, OF a]
    finditem_parent_first_then_first_found[THEN conjunct2, THEN conjunct1, THEN mp, OF b]
    finditem_parent_first_then_first_found[THEN conjunct2, THEN conjunct2, THEN mp, OF c]
  show ?thesis by (simp add: finditem_dict.simps spec_finditem.simps)
qed

section \<open>Records without a key field\<close>

lemma finditem_occurs:
  "finditem_dict obj key \<noteq> JNull \<Longrightarrow> occurs key (JObj obj)"
  "finditem_loop obj key \<noteq> JNull \<Longrightarrow> \<exists>(name, v) \<in> set obj. occurs key v"
proof (induction obj key and obj key rule: finditem_dict_finditem_loop.induct)
  case (1 obj key)
  show ?case
  proof (cases "map_of obj key")
    case None
    with 1 show ?thesis by (simp add: finditem_dict.simps)
  next
    case (Some v)
    then have "key \<in> fst ` set obj" by (force dest: map_of_SomeD)
    then show ?thesis by simp
  qed
next
  case (2 key)
  then show ?case by simp
next
  case (3 dummy v rest key)
  show ?case
  proof (cases v)
    case (JObj m)
    show ?thesis
    proof (cases "finditem_dict m key = JNull")
      case True
      with "3.prems" JObj have "finditem_loop rest key \<noteq> JNull" by simp
      from "3.IH"(5)[OF JObj refl _ this] True show ?thesis by auto
    next
      case False
      from "3.IH"(4)[OF JObj False] JObj show ?thesis by simp
    qed
  next
    case JNull
    with "3.prems" "3.IH"(1) show ?thesis by auto
  next
    case (JStr s)
    with "3.prems" "3.IH"(2) show ?thesis by auto
  next
    case (JNum n)
    with "3.prems" "3.IH"(3) show ?thesis by auto
  next
    case (JList xs)
    with "3.prems" "3.IH"(6) show ?thesis by auto
  qed
qed

lemma finditem_occurs_any: "finditem d key = Inr v \<Longrightarrow> v \<noteq> JNull \<Longrightarrow> occurs key d"
  by (cases d) (auto dest: finditem_occurs(1) split: if_splits)

lemma str_items_Inr: "str_items vs = Inr ss \<Longrightarrow> vs = map JStr ss"
proof (induction vs arbitrary: ss rule: str_items.induct)
  case 1
  then show ?case by simp
next
  case (2 s vs)
  then show ?case by (auto simp: and_then_eq_Inr)
qed simp_all

lemma str_items_not_str: "v \<in> set vs \<Longrightarrow> \<forall>s. v \<noteq> JStr s \<Longrightarrow> str_items vs = Inl TypeError"
proof (induction vs rule: str_items.induct)
  case (2 s vs)
  then show ?case by (cases "str_items vs") auto
qed auto

lemma finditem_all_dict: "finditem_all (JObj m) fs = Inr (map (finditem_dict m) fs)"
  by (induction fs) auto

lemma finditem_all_Inr:
  "finditem_all d fs = Inr vs \<Longrightarrow> list_all2 (\<lambda>f v. finditem d f = Inr v) fs vs"
  by (induction fs arbitrary: vs) (auto simp: and_then_eq_Inr)

lemma multi_step_fields:
  assumes "record_step attribute (Multi fs) out child = Inr out'"
  shows "\<exists>d. descend attribute child = Inr d
           \<and> (\<forall>f \<in> set fs. \<exists>s. finditem d f = Inr (JStr s) \<and> occurs f d)"
proof -
  from assms obtain d vs k where d: "descend attribute child = Inr d"
    and vs: "finditem_all d fs = Inr vs" and k: "join_colon vs = Inr k"
    by (auto simp: record_step_def and_then_eq_Inr)
  from k obtain ss where ss: "vs = map JStr ss"
    by (auto simp: join_colon_def and_then_eq_Inr dest: str_items_Inr)
  have "\<exists>s. finditem d f = Inr (JStr s) \<and> occurs f d" if "f \<in> set fs" for f
  proof -
    from that obtain i where i: "i < length fs" "fs ! i = f" by (auto simp: in_set_conv_nth)
    with finditem_all_Inr[OF vs] have "finditem d f = Inr (vs ! i)" "i < length vs"
      by (auto simp: list_all2_conv_all_nth)
    with ss have "finditem d f = Inr (JStr (ss ! i))" by simp
    then show ?thesis by (auto dest: finditem_occurs_any)
  qed
  with d show ?thesis by blast
qed

lemma iter_children_Cons_Inr:
  "iter_children attribute fld (child # rest) out = Inr out' \<longleftrightarrow>
     (\<exists>mid. record_step attribute fld out child = Inr mid
          \<and> iter_children attribute fld rest mid = Inr out')"
  by (simp add: and_then_eq_Inr)

text \<open>
  Claim C9. With a single key field, a record (a mapping) in which the search finds nothing
  is stored under the key \<^verbatim>\<open>None\<close>. With a tuple of key fields, a record in which the search
  of some listed field finds nothing makes the join raise TypeError. Hence a record, and a
  whole list of records, gets a composite key only if every listed field is found in it
  with a string value, so occurs in it.
\<close>

theorem missing_key_field:
  "(descend attribute child = Inr (JObj m) \<and> finditem_dict m f = JNull \<longrightarrow>
      record_step attribute (Single f) (Keyed t) child
        = Inr (Keyed (setitem KNone (convert_keys (JObj m)) t)))
   \<and> (descend attribute child = Inr (JObj m) \<and> (\<exists>f \<in> set fs. finditem_dict m f = JNull) \<longrightarrow>
      record_step attribute (Multi fs) (Keyed t) child = Inl TypeError)
   \<and> (record_step attribute (Multi fs) out child = Inr out' \<longrightarrow>
        (\<exists>d. descend attribute child = Inr d
           \<and> (\<forall>f \<in> set fs. \<exists>s. finditem d f = Inr (JStr s) \<and> occurs f d)))
   \<and> (iter_children attribute (Multi fs) children out = Inr out' \<longrightarrow>
        (\<forall>child \<in> set children. \<exists>d. descend attribute child = Inr d
           \<and> (\<forall>f \<in> set fs. \<exists>s. finditem d f = Inr (JStr s) \<and> occurs f d)))"
proof (intro conjI impI)
  assume "descend attribute child = Inr (JObj m) \<and> finditem_dict m f = JNull"
  then show "record_step attribute (Single f) (Keyed t) child
        = Inr (Keyed (setitem KNone (convert_keys (JObj m)) t))"
    by (simp add: record_step_def)
next
  assume a: "descend attribute child = Inr (JObj m) \<and> (\<exists>f \<in> set fs. finditem_dict m f = JNull)"
  then have "JNull \<in> set (map (finditem_dict m) fs)" by force
  then have "str_items (map (finditem_dict m) fs) = Inl TypeError"
    by (rule str_items_not_str) simp
  with a show "record_step attribute (Multi fs) (Keyed t) child = Inl TypeError"
    by (simp add: record_step_def finditem_all_dict join_colon_def)
next
  assume "record_step attribute (Multi fs) out child = Inr out'"
  then show "\<exists>d. descend attribute child = Inr d
           \<and> (\<forall>f \<in> set fs. \<exists>s. finditem d f = Inr (JStr s) \<and> occurs f d)"
    by (rule multi_step_fields)
next
  assume "iter_children attribute (Multi fs) children out = Inr out'"
  then show "\<forall>child \<in> set children. \<exists>d. descend attribute child = Inr d
           \<and> (\<forall>f \<in> set fs. \<exists>s. finditem d f = Inr (JStr s) \<and> occurs f d)"
  proof (induction children arbitrary: out)
    case Nil
    then show ?case by simp
  next
    case (Cons child children)
    from Cons.prems obtain mid where
      st: "record_step attribute (Multi fs) out child = Inr mid"
      and rest: "iter_children attribute (Multi fs) children mid = Inr out'"
      by (auto simp: and_then_eq_Inr)
    from multi_step_fields[OF st] Cons.IH[OF rest] show ?case by simp
  qed
qed

text \<open>
  A port record without the \<^verbatim>\<open>port\<close> field: stored under \<^verbatim>\<open>None\<close> for the single field,
  TypeError for the tuple.
\<close>

theorem missing_key_field_witness:
  "record_step (Some ''net-port-info'') (Single ''port'') (Keyed [])
      (JObj [(''net-port-info'', JObj [(''node'', JStr ''nodeA'')])])
     = Inr (Keyed [(KNone, JObj [(''node'', JStr ''nodeA'')])])
   \<and> record_step (Some ''net-port-info'') (Multi [''node'', ''port'']) (Keyed [])
      (JObj [(''net-port-info'', JObj [(''node'', JStr ''nodeA'')])])
     = Inl TypeError"
proof -
  have d: "descend (Some ''net-port-info'')
      (JObj [(''net-port-info'', JObj [(''node'', JStr ''nodeA'')])])
     = Inr (JObj [(''node'', JStr ''nodeA'')])"
    by (simp add: descend_def)
  have n: "finditem_dict [(''node'', JStr ''nodeA'')] ''port'' = JNull"
    by (simp add: finditem_dict.simps)
  have m: "\<exists>f \<in> set [''node'', ''port'']. finditem_dict [(''node'', JStr ''nodeA'')] f = JNull"
    using n by simp
  from missing_key_field[THEN conjunct1, THEN mp, OF conjI[OF d n], of "[]"]
    missing_key_field[THEN conjunct2, THEN conjunct1, THEN mp, OF conjI[OF d m], of "[]"]
  show ?thesis by (simp add: replace_hyphen_def)
qed

section \<open>Records with the same key\<close>

text \<open>
  Claim C8. Let every record of a response derive a key and a normalised form on its own.
  Then the loop never fails on a repeated key: the table is the records stored one after
  the other, it maps a key to the normalised form of the last record that derives it (so
  of the later of two), and it holds each key once.
\<close>

theorem later_record_overwrites_earlier:
  assumes "list_all2 (\<lambda>child (k, v). record_step attribute fld (Keyed []) child
             = Inr (Keyed [(k, v)])) children entries"
  shows "iter_children attribute fld children (Keyed t) = Inr (Keyed (dict_update t entries))
       \<and> map_of (dict_update t entries) = map_of t ++ map_of (rev entries)
       \<and> (\<forall>i j. i < j \<and> j < length entries \<and> fst (entries ! i) = fst (entries ! j)
              \<and> (\<forall>l. j < l \<and> l < length entries \<longrightarrow> fst (entries ! l) \<noteq> fst (entries ! j))
            \<longrightarrow> map_of (dict_update t entries) (fst (entries ! i)) = Some (snd (entries ! j)))
       \<and> (distinct (map fst t) \<longrightarrow> distinct (map fst (dict_update t entries)))
       \<and> (fld \<noteq> NoField \<and> server s call query = (Inr resp, s')
            \<and> map_of resp container = Some children
          \<longrightarrow> get_generic_get_iter server call attribute fld query container s
                = (Inr (Keyed (dict_update [] entries)), s'))"
proof (intro conjI allI impI)
  show "iter_children attribute fld children (Keyed t) = Inr (Keyed (dict_update t entries))"
    using assms by (rule iter_children_entries)
next
  show "map_of (dict_update t entries) = map_of t ++ map_of (rev entries)"
    by (rule map_of_dict_update)
next
  fix i j
  assume a: "i < j \<and> j < length entries \<and> fst (entries ! i) = fst (entries ! j)
              \<and> (\<forall>l. j < l \<and> l < length entries \<longrightarrow> fst (entries ! l) \<noteq> fst (entries ! j))"
  then have "map_of (rev entries) (fst (entries ! j)) = Some (snd (entries ! j))"
    by (intro map_of_rev_last) auto
  with a show "map_of (dict_update t entries) (fst (entries ! i)) = Some (snd (entries ! j))"
    by (simp add: map_of_dict_update map_add_def)
next
  assume "distinct (map fst t)"
  then show "distinct (map fst (dict_update t entries))" by (rule keys_dict_update_distinct)
next
  assume a: "fld \<noteq> NoField \<and> server s call query = (Inr resp, s')
            \<and> map_of resp container = Some children"
  then have "new_out fld = Keyed []" by (cases fld) (simp_all add: new_out_def)
  with a iter_children_entries[OF assms, of "[]"]
  show "get_generic_get_iter server call attribute fld query container s
                = (Inr (Keyed (dict_update [] entries)), s')"
    by (simp add: get_generic_get_iter_def call_api_def)
qed

text \<open>
  Two LUN records with the same path: the table holds the second.
\<close>

theorem later_record_overwrites_earlier_witness:
  "iter_children (Some ''lun-info'') (Single ''path'') 
     [JObj [(''lun-info'', JObj [(''path'', JStr ''/vol/v1/l1''), (''size'', JStr ''1'')])],
      JObj [(''lun-info'', JObj [(''path'', JStr ''/vol/v1/l1''), (''size'', JStr ''2'')])]]
     (Keyed [])
   = Inr (Keyed [(KStr ''/vol/v1/l1'',
                  JObj [(''path'', JStr ''/vol/v1/l1''), (''size'', JStr ''2'')])])"
proof -
  have "list_all2 (\<lambda>child (k, v). record_step (Some ''lun-info'') (Single ''path'') (Keyed []) child
             = Inr (Keyed [(k, v)]))
     [JObj [(''lun-info'', JObj [(''path'', JStr ''/vol/v1/l1''), (''size'', JStr ''1'')])],
      JObj [(''lun-info'', JObj [(''path'', JStr ''/vol/v1/l1''), (''size'', JStr ''2'')])]]
     [(KStr ''/vol/v1/l1'', JObj [(''path'', JStr ''/vol/v1/l1''), (''size'', JStr ''1'')]),
      (KStr ''/vol/v1/l1'', JObj [(''path'', JStr ''/vol/v1/l1''), (''size'', JStr ''2'')])]"
    by (simp add: record_step_def descend_def finditem_dict.simps replace_hyphen_def)
  from later_record_overwrites_earlier[OF this, THEN conjunct1, of "[]"]
  show ?thesis by simp
qed

section \<open>Rewriting of field names\<close>

lemma replace_hyphen_no_hyphen: "CHR ''-'' \<notin> set (replace_hyphen k)"
  by (auto simp: replace_hyphen_def)

lemma set_setitem: "set (setitem k v d) \<subseteq> insert (k, v) (set d)"
  by (induction d) (auto split: if_splits)

lemma convert_keys_underscored:
  "sequence_free d \<Longrightarrow> keys_underscored (convert_keys d)"
  "(\<forall>(k, v) \<in> set m. sequence_free v) \<Longrightarrow>
   (\<forall>(k, v) \<in> set out. CHR ''-'' \<notin> set k \<and> keys_underscored v) \<Longrightarrow>
   (\<forall>(k, v) \<in> set (convert_items m out). CHR ''-'' \<notin> set k \<and> keys_underscored v)"
proof (induction d and m out rule: convert_keys_convert_items.induct)
  case (7 k v rest out)
  from "7.prems"(1) have v: "sequence_free v" and rest: "\<forall>(k, v) \<in> set rest. sequence_free v"
    by auto
  have "\<forall>(k', v') \<in> set (setitem (replace_hyphen k) (convert_keys v) out).
          CHR ''-'' \<notin> set k' \<and> keys_underscored v'"
    using set_setitem[of "replace_hyphen k" "convert_keys v" out] "7.prems"(2) "7.IH"(1)[OF v]
    by (auto simp: replace_hyphen_no_hyphen)
  from "7.IH"(2)[OF rest this] show ?case by simp
qed auto

text \<open>
  Claim C3 on a mapping nested in a sequence: \<^verbatim>\<open>convert_keys\<close> returns a sequence as it
  is, so \<^verbatim>\<open>{"owning-vserver-name": [{"sub-field": 1}]}\<close> keeps \<^verbatim>\<open>sub-field\<close>. For values
  without sequences every field name is rewritten (\<open>convert_keys_underscored\<close>).
\<close>

theorem convert_keys_leaves_sequences:
  "convert_keys (JObj [(''owning-vserver-name'', JList [JObj [(''sub-field'', JNum 1)]])])
     = JObj [(''owning_vserver_name'', JList [JObj [(''sub-field'', JNum 1)]])]
   \<and> \<not> keys_underscored
         (convert_keys (JObj [(''owning-vserver-name'', JList [JObj [(''sub-field'', JNum 1)]])]))"
  by (simp add: replace_hyphen_def)

lemma convert_keys_spec_example:
  "convert_keys (JObj [(''owning-vserver-name'', JObj [(''sub-field'', JNum 1)])])
     = JObj [(''owning_vserver_name'', JObj [(''sub_field'', JNum 1)])]"
  by (simp add: replace_hyphen_def)

section \<open>The key of a record\<close>

lemma single_key_from_unrewritten_record:
  assumes "descend attribute child = Inr (JObj m)" and "finditem_dict m f = JStr s"
  shows "record_step attribute (Single f) (Keyed t) child
           = Inr (Keyed (setitem (KStr s) (convert_keys (JObj m)) t))"
  using assms by (simp add: record_step_def)

lemma composite_key_joined_in_order:
  assumes "descend attribute child = Inr (JObj m)"
    and "map (finditem_dict m) fs = map JStr ss"
  shows "record_step attribute (Multi fs) (Keyed t) child
           = Inr (Keyed (setitem (KStr (join_strs ss)) (convert_keys (JObj m)) t))"
proof -
  have "str_items (map JStr ss) = Inr ss" by (induction ss) auto
  with assms show ?thesis
    by (simp add: record_step_def finditem_all_dict join_colon_def)
qed

text \<open>
  Claim C2 on an aggregate with two plexes: the key is the value of \<^verbatim>\<open>aggregate-name\<close>
  found in the record before the rewriting, but the stored record keeps the field name
  \<^verbatim>\<open>plex-name\<close> inside the sequence of plexes. The keys themselves are as the claim says
  (\<open>single_key_from_unrewritten_record\<close>, \<open>composite_key_joined_in_order\<close>).
\<close>

theorem stored_record_keeps_hyphens_in_sequences:
  "get_generic_get_iter (sample_server '''') ''aggr-get-iter'' (Some ''aggr-attributes'')
      (Single ''aggregate-name'') max_records ''attributes-list'' ()
     = (Inr (Keyed [(KStr ''aggr1'',
          JObj [(''aggregate_name'', JStr ''aggr1''),
                (''aggr_raid_attributes'',
                   JObj [(''plexes'',
                     JObj [(''plex_attributes'',
                       JList [JObj [(''plex-name'', JStr ''plex0'')],
                              JObj [(''plex-name'', JStr ''plex1'')]])])])])]), ())
   \<and> \<not> keys_underscored
         (JObj [(''aggregate_name'', JStr ''aggr1''),
                (''aggr_raid_attributes'',
                   JObj [(''plexes'',
                     JObj [(''plex_attributes'',
                       JList [JObj [(''plex-name'', JStr ''plex0'')],
                              JObj [(''plex-name'', JStr ''plex1'')]])])])])"
  by (simp add: sample_defs)

section \<open>Failing calls\<close>

lemma ifgrp_loop_append:
  "ifgrp_loop server (ifgrps_done @ ifgrps_left) acc s =
     (case ifgrp_loop server ifgrps_done acc s of
        (Inl e, s') \<Rightarrow> (Inl e, s')
      | (Inr merged, s') \<Rightarrow> ifgrp_loop server ifgrps_left merged s')"
  by (induction ifgrps_done arbitrary: acc s) (auto split: prod.splits sum.splits)

text \<open>
  Claim C4. Let the run have completed the categories before the \<open>i\<close>-th and reach a call
  other than \<^verbatim>\<open>security-key-manager-key-get-iter\<close> on which the session raises the API
  error \<open>e\<close>: the call of the \<open>i\<close>-th category, or one of the interface-group lookups when
  that category is the derived one. Then the whole run ends with \<^verbatim>\<open>fail_json\<close>, no Fact Set
  is returned, and the message is \<^verbatim>\<open>Error calling API <call>: <e>\<close>.
\<close>

theorem other_call_failure_aborts_run:
  assumes "i < length catalog"
    and "run_steps server (take i catalog) [] s0 = (Inr info, s1)"
    and "call \<noteq> ''security-key-manager-key-get-iter''"
    and "server s call query = (Inl e, s')"
    and "(\<exists>category attribute fld.
            catalog ! i = GetIter category call attribute fld \<and> query = max_records \<and> s = s1)
       \<or> (\<exists>category net_port_info ifgrps_done ifgrp ifgrps_left merged.
            catalog ! i = IfgrpInfo category \<and> call = ''net-port-ifgrp-get'' \<and>
            map_of info ''net_port_info'' = Some (Keyed net_port_info) \<and>
            select_ifgrps net_port_info = Inr (ifgrps_done @ ifgrp # ifgrps_left) \<and>
            ifgrp_loop server ifgrps_done [] s1 = (Inr merged, s) \<and>
            ifgrp_query ifgrp = Inr query)"
  shows "call_api server call query s =
           (Inl (FailJson (''Error calling API '' @ call @ '': '' @ e)), s')
       \<and> get_all server s0 =
           (Inl (FailJson (''Error calling API '' @ call @ '': '' @ e)), s')"
proof -
  let ?err = "FailJson (''Error calling API '' @ call @ '': '' @ e)"
  have api: "call_api server call query s = (Inl ?err, s')"
    using assms(3,4) by (simp add: call_api_failure)
  have ggi: "get_generic_get_iter server call attribute fld query children s = (Inl ?err, s')"
    for attribute fld children
    using assms(3,4) by (simp add: generic_get_iter_failure)
  have "run_step server (catalog ! i) info s1 = (Inl ?err, s')"
    using assms(5)
  proof (elim disjE exE conjE)
    fix category attribute fld
    assume "catalog ! i = GetIter category call attribute fld" "query = max_records" "s = s1"
    with ggi show ?thesis by simp
  next
    fix category net_port_info ifgrps_done ifgrp ifgrps_left merged
    assume st: "catalog ! i = IfgrpInfo category" and c: "call = ''net-port-ifgrp-get''"
      and tab: "map_of info ''net_port_info'' = Some (Keyed net_port_info)"
      and sel: "select_ifgrps net_port_info = Inr (ifgrps_done @ ifgrp # ifgrps_left)"
      and loop: "ifgrp_loop server ifgrps_done [] s1 = (Inr merged, s)"
      and q: "ifgrp_query ifgrp = Inr query"
    have "ifgrp_loop server (ifgrp # ifgrps_left) merged s = (Inl ?err, s')"
      using q ggi c by simp
    then have "ifgrp_loop server (ifgrps_done @ ifgrp # ifgrps_left) [] s1 = (Inl ?err, s')"
      using loop by (simp add: ifgrp_loop_append)
    then have "get_ifgrp_info server info s1 = (Inl ?err, s')"
      using tab sel by (simp add: get_ifgrp_info_def)
    with st show ?thesis by simp
  qed
  with get_all_at[OF assms(1,2)] api show ?thesis by simp
qed

text \<open>
  Two runs against the sample session: the volume call fails; the interface-group lookup
  fails.
\<close>

theorem other_call_failure_aborts_run_witness:
  "get_all (sample_server ''volume-get-iter'') ()
     = (Inl (FailJson ''Error calling API volume-get-iter: 13005:Unable to find API''), ())
   \<and> get_all (sample_server ''net-port-ifgrp-get'') ()
     = (Inl (FailJson ''Error calling API net-port-ifgrp-get: 13005:Unable to find API''), ())"
proof -
  have i: "5 < length catalog" by (simp add: length_catalog)
  have pre: "run_steps (sample_server ''volume-get-iter'') (take 5 catalog) [] ()
      = (Inr (take 5 sample_facts), ())"
    by (simp add: catalog_def sample_facts_def sample_defs)
  have ne: "''volume-get-iter'' \<noteq> ''security-key-manager-key-get-iter''" by simp
  have fail: "sample_server ''volume-get-iter'' () ''volume-get-iter'' max_records
      = (Inl ''13005:Unable to find API'', ())"
    by (simp add: sample_server_def)
  have st: "(\<exists>category attribute fld.
            catalog ! 5 = GetIter category ''volume-get-iter'' attribute fld
            \<and> max_records = max_records \<and> () = ())
       \<or> (\<exists>category net_port_info ifgrps_done ifgrp ifgrps_left merged.
            catalog ! 5 = IfgrpInfo category \<and> ''volume-get-iter'' = ''net-port-ifgrp-get'' \<and>
            map_of (take 5 sample_facts) ''net_port_info'' = Some (Keyed net_port_info) \<and>
            select_ifgrps net_port_info = Inr (ifgrps_done @ ifgrp # ifgrps_left) \<and>
            ifgrp_loop (sample_server ''volume-get-iter'') ifgrps_done [] () = (Inr merged, ()) \<and>
            ifgrp_query ifgrp = Inr max_records)"
    by (simp add: catalog_def)
  have i': "8 < length catalog" by (simp add: length_catalog)
  have pre': "run_steps (sample_server ''net-port-ifgrp-get'') (take 8 catalog) [] ()
      = (Inr (take 8 sample_facts), ())"
    by (simp add: catalog_def sample_facts_def sample_defs)
  have ne': "''net-port-ifgrp-get'' \<noteq> ''security-key-manager-key-get-iter''" by simp
  have fail': "sample_server ''net-port-ifgrp-get'' () ''net-port-ifgrp-get''
      [(''node'', ''nodeA''), (''ifgrp-name'', ''a0a'')] = (Inl ''13005:Unable to find API'', ())"
    by (simp add: sample_server_def)
  have "catalog ! 8 = IfgrpInfo ''net_ifgrp_info'' \<and> ''net-port-ifgrp-get'' = ''net-port-ifgrp-get'' \<and>
      map_of (take 8 sample_facts) ''net_port_info''
        = Some (Keyed [(KStr ''nodeA:a0a'',
                  JObj [(''node'', JStr ''nodeA''), (''port'', JStr ''a0a''),
                        (''port_type'', JStr ''if_group'')]),
               (KStr ''nodeA:e0c'',
                  JObj [(''node'', JStr ''nodeA''), (''port'', JStr ''e0c''),
                        (''port_type'', JStr ''physical'')])]) \<and>
      select_ifgrps [(KStr ''nodeA:a0a'',
                  JObj [(''node'', JStr ''nodeA''), (''port'', JStr ''a0a''),
                        (''port_type'', JStr ''if_group'')]),
               (KStr ''nodeA:e0c'',
                  JObj [(''node'', JStr ''nodeA''), (''port'', JStr ''e0c''),
                        (''port_type'', JStr ''physical'')])]
        = Inr ([] @ KStr ''nodeA:a0a'' # []) \<and>
      ifgrp_loop (sample_server ''net-port-ifgrp-get'') [] [] () = (Inr [], ()) \<and>
      ifgrp_query (KStr ''nodeA:a0a'') = Inr [(''node'', ''nodeA''), (''ifgrp-name'', ''a0a'')]"
    by (simp add: catalog_def sample_facts_def)
  then have st': "(\<exists>category attribute fld.
            catalog ! 8 = GetIter category ''net-port-ifgrp-get'' attribute fld
            \<and> [(''node'', ''nodeA''), (''ifgrp-name'', ''a0a'')] = max_records \<and> () = ())
       \<or> (\<exists>category net_port_info ifgrps_done ifgrp ifgrps_left merged.
            catalog ! 8 = IfgrpInfo category \<and> ''net-port-ifgrp-get'' = ''net-port-ifgrp-get'' \<and>
            map_of (take 8 sample_facts) ''net_port_info'' = Some (Keyed net_port_info) \<and>
            select_ifgrps net_port_info = Inr (ifgrps_done @ ifgrp # ifgrps_left) \<and>
            ifgrp_loop (sample_server ''net-port-ifgrp-get'') ifgrps_done [] () = (Inr merged, ()) \<and>
            ifgrp_query ifgrp = Inr [(''node'', ''nodeA''), (''ifgrp-name'', ''a0a'')])"
    by blast
  from other_call_failure_aborts_run[OF i pre ne fail st]
    other_call_failure_aborts_run[OF i' pre' ne' fail' st']
  show ?thesis by simp
qed

section \<open>A category without response\<close>

text \<open>
  Claim C5, as stated, fails: when the key-manager call yields no response the Fact Set of
  the run does contain the key \<^verbatim>\<open>security_key_manager_key_info\<close>.
\<close>

theorem absent_category_key_is_present:
  "get_generic_get_iter (sample_server ''security-key-manager-key-get-iter'')
      ''security-key-manager-key-get-iter'' (Some ''security-key-manager-key-info'')
      (Multi [''node'', ''key-id'']) max_records ''attributes-list'' () = (Inr Absent, ())
   \<and> get_all (sample_server ''security-key-manager-key-get-iter'') () = (Inr sample_facts, ())
   \<and> ''security_key_manager_key_info'' \<in> fst ` set sample_facts"
proof -
  have "get_all (sample_server ''security-key-manager-key-get-iter'') () = (Inr sample_facts, ())"
    by (simp add: get_all_def catalog_def sample_facts_def sample_defs)
  then show ?thesis
    by (simp add: sample_facts_def sample_defs)
qed

text \<open>
  Claim C5, amended. When the call of a category yields no response,
  \<^verbatim>\<open>get_generic_get_iter\<close> returns \<^verbatim>\<open>None\<close> and the Fact Set of a completed run contains the
  category key, mapped to \<^verbatim>\<open>None\<close>: the key is neither missing nor mapped to an empty
  collection.
\<close>

theorem absent_category_maps_to_none:
  assumes "i < length catalog"
    and "catalog ! i = GetIter category call attribute fld"
    and "run_steps server (take i catalog) [] s0 = (Inr info, s1)"
    and "call_api server call max_records s1 = (Inr None, s2)"
    and "get_all server s0 = (Inr facts, s3)"
  shows "get_generic_get_iter server call (Some attribute) fld max_records ''attributes-list'' s1
           = (Inr Absent, s2)
       \<and> map_of facts category = Some Absent
       \<and> category \<in> fst ` set facts"
proof -
  have ggi: "get_generic_get_iter server call (Some attribute) fld max_records
      ''attributes-list'' s1 = (Inr Absent, s2)"
    using assms(4) by (rule generic_get_iter_no_response)
  then have "run_step server (catalog ! i) info s1 = (Inr (setitem category Absent info), s2)"
    using assms(2) by simp
  with get_all_at[OF assms(1,3)] assms(5)
  have rest: "run_steps server (drop (Suc i) catalog) (setitem category Absent info) s2
      = (Inr facts, s3)" by simp
  have "category \<notin> step_category ` set (drop (Suc i) catalog)"
    using category_not_set_later[OF assms(1)] assms(2) by simp
  from run_steps_keeps[OF rest this]
  have m: "map_of facts category = Some Absent" by (simp add: map_of_setitem)
  then have "category \<in> fst ` set facts" by (force dest: map_of_SomeD)
  with ggi m show ?thesis by simp
qed

text \<open>
  The run against the sample session with the key-manager call failing.
\<close>

theorem absent_category_maps_to_none_witness:
  "map_of sample_facts ''security_key_manager_key_info'' = Some Absent
   \<and> ''security_key_manager_key_info'' \<in> fst ` set sample_facts"
proof -
  have i: "11 < length catalog" by (simp add: length_catalog)
  have st: "catalog ! 11 = GetIter ''security_key_manager_key_info''
      ''security-key-manager-key-get-iter'' ''security-key-manager-key-info''
      (Multi [''node'', ''key-id''])"
    by (simp add: catalog_def)
  have api: "call_api (sample_server ''security-key-manager-key-get-iter'')
      ''security-key-manager-key-get-iter'' max_records () = (Inr None, ())"
    by (simp add: call_api_def sample_server_def)
  have run: "get_all (sample_server ''security-key-manager-key-get-iter'') ()
      = (Inr sample_facts, ())"
    by (simp add: get_all_def catalog_def sample_facts_def sample_defs)
  from absent_category_maps_to_none[OF i st sample_run_before_key_manager api run]
  show ?thesis by simp
qed

section \<open>The interface groups\<close>

lemma split_colon_not_Nil: "split_colon s \<noteq> []"
  by (induction s) (auto split: list.splits)

lemma join_strs_Cons_char: "join_strs ((c # w) # ws) = c # join_strs (w # ws)"
  by (cases ws) auto

lemma join_split_colon: "join_strs (split_colon s) = s"
proof (induction s)
  case Nil
  then show ?case by simp
next
  case (Cons c cs)
  obtain w ws where ws: "split_colon cs = w # ws"
    using split_colon_not_Nil[of cs] by (cases "split_colon cs") auto
  with Cons show ?case by (auto simp: join_strs_Cons_char)
qed

lemma split_colon_parts: "w \<in> set (split_colon s) \<Longrightarrow> CHR '':'' \<notin> set w"
proof (induction s arbitrary: w)
  case Nil
  then show ?case by simp
next
  case (Cons c cs)
  obtain v vs where vs: "split_colon cs = v # vs"
    using split_colon_not_Nil[of cs] by (cases "split_colon cs") auto
  with Cons show ?case by (auto split: if_splits)
qed

lemma split_colon_append: "CHR '':'' \<notin> set a \<Longrightarrow> split_colon (a @ CHR '':'' # b) = a # split_colon b"
  by (induction a) auto

lemma split_colon_plain: "CHR '':'' \<notin> set a \<Longrightarrow> split_colon a = [a]"
  by (induction a) auto

lemma ifgrp_query_Inr:
  "ifgrp_query k = Inr q \<longleftrightarrow>
     (\<exists>node name. k = KStr (node @ '':'' @ name) \<and> CHR '':'' \<notin> set node
        \<and> CHR '':'' \<notin> set name \<and> q = [(''node'', node), (''ifgrp-name'', name)])"
proof
  assume a: "ifgrp_query k = Inr q"
  then obtain s where k: "k = KStr s" by (cases k) auto
  with a obtain node name where sp: "split_colon s = [node, name]"
    and q: "q = [(''node'', node), (''ifgrp-name'', name)]"
    by (auto split: list.splits)
  from join_split_colon[of s] sp have "s = node @ '':'' @ name" by simp
  moreover from split_colon_parts[of _ s] sp
  have "CHR '':'' \<notin> set node" "CHR '':'' \<notin> set name" by auto
  ultimately show "\<exists>node name. k = KStr (node @ '':'' @ name) \<and> CHR '':'' \<notin> set node
        \<and> CHR '':'' \<notin> set name \<and> q = [(''node'', node), (''ifgrp-name'', name)]"
    using k q by blast
next
  assume "\<exists>node name. k = KStr (node @ '':'' @ name) \<and> CHR '':'' \<notin> set node
        \<and> CHR '':'' \<notin> set name \<and> q = [(''node'', node), (''ifgrp-name'', name)]"
  then show "ifgrp_query k = Inr q"
    by (auto simp: split_colon_append split_colon_plain)
qed

lemma select_ifgrps_Inr:
  "select_ifgrps t = Inr ks \<Longrightarrow>
     ks = map fst (filter (\<lambda>(ifn, port). getitem port ''port_type'' = Inr (JStr ''if_group'')) t)"
  by (induction t arbitrary: ks) (auto simp: and_then_eq_Inr)

lemma select_ifgrps_none:
  "(\<forall>(ifn, port) \<in> set t. \<exists>v. getitem port ''port_type'' = Inr v \<and> v \<noteq> JStr ''if_group'')
     \<Longrightarrow> select_ifgrps t = Inr []"
  by (induction t) auto

lemma ifgrp_loop_trace:
  assumes "ifgrp_loop server ks acc s = (Inr r, s')"
  shows "\<exists>queries states tables.
           list_all2 (\<lambda>ifn q. ifgrp_query ifn = Inr q) ks queries
         \<and> length states = Suc (length queries) \<and> hd states = s \<and> last states = s'
         \<and> length tables = length queries
         \<and> (\<forall>j < length queries.
               get_generic_get_iter server ''net-port-ifgrp-get'' (Some ''net-ifgrp-info'')
                 (Multi [''node'', ''ifgrp-name'']) (queries ! j) ''attributes'' (states ! j)
               = (Inr (Keyed (tables ! j)), states ! Suc j))
         \<and> r = fold (\<lambda>tmp acc. dict_update acc tmp) tables acc"
  using assms
proof (induction ks arbitrary: acc s)
  case Nil
  then have "r = acc" "s' = s" by auto
  then show ?case
    by (intro exI[where x="[]"] exI[where x="[s]"]) simp
next
  case (Cons k ks)
  from Cons.prems obtain q tmp s1 merged where q: "ifgrp_query k = Inr q"
    and g: "get_generic_get_iter server ''net-port-ifgrp-get'' (Some ''net-ifgrp-info'')
                 (Multi [''node'', ''ifgrp-name'']) q ''attributes'' s = (Inr tmp, s1)"
    and m: "merge_ifgrp acc tmp = Inr merged"
    and rest: "ifgrp_loop server ks merged s1 = (Inr r, s')"
    by (auto split: sum.splits prod.splits)
  from m obtain t where t: "tmp = Keyed t" "merged = dict_update acc t"
    by (cases tmp) auto
  from Cons.IH[OF rest] obtain queries states tables where
    qs: "list_all2 (\<lambda>ifn q. ifgrp_query ifn = Inr q) ks queries"
    and len: "length states = Suc (length queries)" and hd: "hd states = s1"
    and lst: "last states = s'" and lt: "length tables = length queries"
    and steps: "\<forall>j < length queries.
               get_generic_get_iter server ''net-port-ifgrp-get'' (Some ''net-ifgrp-info'')
                 (Multi [''node'', ''ifgrp-name'']) (queries ! j) ''attributes'' (states ! j)
               = (Inr (Keyed (tables ! j)), states ! Suc j)"
    and r: "r = fold (\<lambda>tmp acc. dict_update acc tmp) tables merged"
    by blast
  from len have ne: "states \<noteq> []" by auto
  with hd have s0: "states ! 0 = s1" by (simp add: hd_conv_nth)
  have "\<forall>j < length (q # queries).
               get_generic_get_iter server ''net-port-ifgrp-get'' (Some ''net-ifgrp-info'')
                 (Multi [''node'', ''ifgrp-name'']) ((q # queries) ! j) ''attributes''
                 ((s # states) ! j)
               = (Inr (Keyed ((t # tables) ! j)), (s # states) ! Suc j)"
  proof (intro allI impI)
    fix j assume "j < length (q # queries)"
    then show "get_generic_get_iter server ''net-port-ifgrp-get'' (Some ''net-ifgrp-info'')
                 (Multi [''node'', ''ifgrp-name'']) ((q # queries) ! j) ''attributes''
                 ((s # states) ! j)
               = (Inr (Keyed ((t # tables) ! j)), (s # states) ! Suc j)"
      using g t s0 steps by (cases j) auto
  qed
  then show ?case
    using qs q len lst lt r t ne
    by (intro exI[where x="q # queries"] exI[where x="s # states"] exI[where x="t # tables"])
       simp
qed

lemma call_api_recording:
  "call_api (recording server) call query (s, log) =
     (case call_api server call query s of (r, s') \<Rightarrow> (r, (s', log @ [(call, query)])))"
  by (auto simp: call_api_def recording_def split: prod.splits sum.splits)

lemma generic_get_iter_recording:
  "get_generic_get_iter (recording server) call attribute fld query children (s, log) =
     (case get_generic_get_iter server call attribute fld query children s of
        (r, s') \<Rightarrow> (r, (s', log @ [(call, query)])))"
  by (auto simp: get_generic_get_iter_def call_api_recording split: prod.splits sum.splits option.splits)

lemma ifgrp_loop_recording:
  assumes "ifgrp_loop server ks acc s = (Inr r, s')"
    and "list_all2 (\<lambda>ifn q. ifgrp_query ifn = Inr q) ks queries"
  shows "ifgrp_loop (recording server) ks acc (s, log)
           = (Inr r, (s', log @ map (Pair ''net-port-ifgrp-get'') queries))"
  using assms(2,1)
proof (induction ks queries arbitrary: acc s log rule: list_all2_induct)
  case Nil
  then show ?case by simp
next
  case (Cons k ks q queries)
  from Cons.prems Cons.hyps(1) obtain tmp s1 merged where
    g: "get_generic_get_iter server ''net-port-ifgrp-get'' (Some ''net-ifgrp-info'')
                 (Multi [''node'', ''ifgrp-name'']) q ''attributes'' s = (Inr tmp, s1)"
    and m: "merge_ifgrp acc tmp = Inr merged"
    and rest: "ifgrp_loop server ks merged s1 = (Inr r, s')"
    by (auto split: sum.splits prod.splits)
  from Cons.IH[OF rest, of "log @ [(''net-port-ifgrp-get'', q)]"] g m Cons.hyps(1)
  show ?case by (simp add: generic_get_iter_recording)
qed

subsection \<open>Merging the per-group tables\<close>

lemma map_of_rev_distinct: "distinct (map fst al) \<Longrightarrow> map_of (rev al) = map_of al"
proof (induction al)
  case Nil
  then show ?case by simp
next
  case (Cons kv al)
  obtain k v where kv: "kv = (k, v)" by (cases kv)
  with Cons.prems have notin: "k \<notin> fst ` set al" and d: "distinct (map fst al)" by auto
  then have none: "map_of al k = None" by (simp add: map_of_eq_None_iff)
  have "map_of (rev al @ [(k, v)]) = map_of [(k, v)] ++ map_of (rev al)"
    by (simp only: map_of_append)
  with Cons.IH[OF d] none kv show ?case
    by (auto simp: fun_eq_iff map_add_def split: option.splits)
qed

lemma dict_update_merges:
  "distinct (map fst other) \<Longrightarrow> map_of (dict_update d other) = map_of d ++ map_of other"
  by (simp add: map_of_dict_update map_of_rev_distinct)

lemma fold_dict_update_merges:
  "(\<forall>t \<in> set tables. distinct (map fst t)) \<Longrightarrow>
     map_of (fold (\<lambda>tmp acc. dict_update acc tmp) tables acc)
       = foldl (\<lambda>m t. m ++ map_of t) (map_of acc) tables"
  by (induction tables arbitrary: acc) (simp_all add: dict_update_merges)

lemma fold_dict_update_distinct:
  "distinct (map fst acc) \<Longrightarrow> distinct (map fst (fold (\<lambda>tmp acc. dict_update acc tmp) tables acc))"
  by (induction tables arbitrary: acc) (simp_all add: keys_dict_update_distinct)

lemma dom_foldl_map_add:
  "dom (foldl (\<lambda>m t. m ++ map_of t) m0 tables) = dom m0 \<union> (\<Union>t \<in> set tables. fst ` set t)"
  by (induction tables arbitrary: m0) (auto simp: dom_map_of_conv_image_fst)

lemma foldl_map_add_last:
  assumes "j < length tables" and "map_of (tables ! j) k = Some v"
    and "\<forall>l. j < l \<and> l < length tables \<longrightarrow> map_of (tables ! l) k = None"
  shows "foldl (\<lambda>m t. m ++ map_of t) m0 tables k = Some v"
  using assms
proof (induction tables arbitrary: j rule: rev_induct)
  case Nil
  then show ?case by simp
next
  case (snoc t tables)
  show ?case
  proof (cases "j = length tables")
    case True
    with snoc.prems(2) show ?thesis by (simp add: map_add_def)
  next
    case False
    with snoc.prems(1) have j: "j < length tables" by simp
    from snoc.prems(3)[rule_format, of "length tables"] j
    have none: "map_of t k = None" by simp
    have "\<forall>l. j < l \<and> l < length tables \<longrightarrow> map_of (tables ! l) k = None"
    proof (intro allI impI)
      fix l assume l: "j < l \<and> l < length tables"
      with snoc.prems(3)[rule_format, of l] show "map_of (tables ! l) k = None"
        by (simp add: nth_append)
    qed
    from snoc.IH[OF j _ this] snoc.prems(2) j none show ?thesis
      by (simp add: nth_append map_add_def)
  qed
qed

lemma record_step_keeps_distinct:
  assumes "record_step attribute fld out child = Inr out'"
    and "\<forall>t. out = Keyed t \<longrightarrow> distinct (map fst t)"
  shows "\<forall>t. out' = Keyed t \<longrightarrow> distinct (map fst t)"
  using assms
  by (cases fld; cases out)
     (auto simp: record_step_def and_then_eq_Inr keys_setitem split: if_splits)

lemma iter_children_keeps_distinct:
  assumes "iter_children attribute fld children out = Inr out'"
    and "\<forall>t. out = Keyed t \<longrightarrow> distinct (map fst t)"
  shows "\<forall>t. out' = Keyed t \<longrightarrow> distinct (map fst t)"
  using assms
proof (induction children arbitrary: out)
  case Nil
  then show ?case by simp
next
  case (Cons child children)
  from Cons.prems(1) obtain mid where
    st: "record_step attribute fld out child = Inr mid"
    and rest: "iter_children attribute fld children mid = Inr out'"
    by (auto simp: and_then_eq_Inr)
  from Cons.IH[OF rest record_step_keeps_distinct[OF st Cons.prems(2)]] show ?case .
qed

lemma generic_get_iter_distinct_keys:
  assumes "get_generic_get_iter server call attribute fld query children s = (Inr (Keyed t), s')"
  shows "distinct (map fst t)"
proof -
  from assms obtain kids where
    "iter_children attribute fld kids (new_out fld) = Inr (Keyed t)"
    by (auto simp: get_generic_get_iter_def split: prod.splits sum.splits option.splits)
  moreover have "\<forall>t. new_out fld = Keyed t \<longrightarrow> distinct (map fst t)"
    by (cases fld) (simp_all add: new_out_def)
  ultimately show ?thesis by (blast dest: iter_children_keeps_distinct)
qed

text \<open>
  Claim C6. Let the Fact Set hold a network-port table and the derivation complete. Take
  the keys of the entries whose \<^verbatim>\<open>port_type\<close> is \<^verbatim>\<open>if_group\<close>, in the order of the table.
  Each is \<^verbatim>\<open>node:name\<close> with no further colon and gives the query \<^verbatim>\<open>node=node\<close>,
  \<^verbatim>\<open>ifgrp-name=name\<close>; the lookups \<^verbatim>\<open>net-port-ifgrp-get\<close> are made with these queries one
  after the other, each returning a table with distinct keys; and the calls sent to the
  session are exactly these lookups, one per group. The result is one table that holds
  every key of every per-group table once and nothing else, and maps a key to its record
  in the last per-group table that has it: every entry of every group is in the result
  unless a later group has the same key. In particular the key \<^verbatim>\<open>nodeA:a0a\<close> gives
  \<^verbatim>\<open>node=nodeA\<close>, \<^verbatim>\<open>ifgrp-name=a0a\<close>.
\<close>

theorem ifgrp_info_derived_from_port_table:
  assumes "map_of info ''net_port_info'' = Some (Keyed net_port_info)"
    and "get_ifgrp_info server info s = (Inr result, s')"
  shows "ifgrp_query (KStr ''nodeA:a0a'') = Inr [(''node'', ''nodeA''), (''ifgrp-name'', ''a0a'')]
     \<and> (\<exists>queries states tables.
         list_all2 (\<lambda>ifn q. \<exists>node name. ifn = KStr (node @ '':'' @ name)
                      \<and> CHR '':'' \<notin> set node \<and> CHR '':'' \<notin> set name
                      \<and> q = [(''node'', node), (''ifgrp-name'', name)])
            (map fst (filter (\<lambda>(ifn, port). getitem port ''port_type'' = Inr (JStr ''if_group''))
                        net_port_info))
            queries
       \<and> length states = Suc (length queries) \<and> hd states = s \<and> last states = s'
       \<and> length tables = length queries
       \<and> (\<forall>j < length queries.
             get_generic_get_iter server ''net-port-ifgrp-get'' (Some ''net-ifgrp-info'')
               (Multi [''node'', ''ifgrp-name'']) (queries ! j) ''attributes'' (states ! j)
             = (Inr (Keyed (tables ! j)), states ! Suc j))
       \<and> result = Keyed (fold (\<lambda>tmp acc. dict_update acc tmp) tables [])
       \<and> get_ifgrp_info (recording server) info (s, log)
           = (Inr result, (s', log @ map (Pair ''net-port-ifgrp-get'') queries))
       \<and> (\<forall>j < length tables. distinct (map fst (tables ! j)))
       \<and> (\<exists>merged. result = Keyed merged
            \<and> distinct (map fst merged)
            \<and> fst ` set merged = (\<Union>t \<in> set tables. fst ` set t)
            \<and> map_of merged = foldl (\<lambda>m t. m ++ map_of t) Map.empty tables
            \<and> (\<forall>j k v. j < length tables \<and> map_of (tables ! j) k = Some v
                  \<and> (\<forall>l. j < l \<and> l < length tables \<longrightarrow> map_of (tables ! l) k = None)
                \<longrightarrow> map_of merged k = Some v)))"
proof
  show "ifgrp_query (KStr ''nodeA:a0a'') = Inr [(''node'', ''nodeA''), (''ifgrp-name'', ''a0a'')]"
    by simp
next
  let ?ks = "map fst (filter (\<lambda>(ifn, port). getitem port ''port_type'' = Inr (JStr ''if_group''))
                        net_port_info)"
  from assms obtain ks r where sel: "select_ifgrps net_port_info = Inr ks"
    and loop: "ifgrp_loop server ks [] s = (Inr r, s')" and res: "result = Keyed r"
    by (auto simp: get_ifgrp_info_def split: sum.splits prod.splits)
  from select_ifgrps_Inr[OF sel] have ks: "ks = ?ks" .
  from ifgrp_loop_trace[OF loop] obtain queries states tables where
    qs: "list_all2 (\<lambda>ifn q. ifgrp_query ifn = Inr q) ks queries"
    and len: "length states = Suc (length queries)" "hd states = s" "last states = s'"
      "length tables = length queries"
    and steps: "\<forall>j < length queries.
             get_generic_get_iter server ''net-port-ifgrp-get'' (Some ''net-ifgrp-info'')
               (Multi [''node'', ''ifgrp-name'']) (queries ! j) ''attributes'' (states ! j)
             = (Inr (Keyed (tables ! j)), states ! Suc j)"
    and r: "r = fold (\<lambda>tmp acc. dict_update acc tmp) tables []"
    by blast
  from qs have qs': "list_all2 (\<lambda>ifn q. \<exists>node name. ifn = KStr (node @ '':'' @ name)
                      \<and> CHR '':'' \<notin> set node \<and> CHR '':'' \<notin> set name
                      \<and> q = [(''node'', node), (''ifgrp-name'', name)]) ?ks queries"
    unfolding ks by (simp add: ifgrp_query_Inr)
  from ifgrp_loop_recording[OF loop qs, of log] assms(1) sel res
  have rec: "get_ifgrp_info (recording server) info (s, log)
           = (Inr result, (s', log @ map (Pair ''net-port-ifgrp-get'') queries))"
    by (simp add: get_ifgrp_info_def)
  have dist: "\<forall>j < length tables. distinct (map fst (tables ! j))"
    using steps len(4) by (auto dest: generic_get_iter_distinct_keys)
  then have dist': "\<forall>t \<in> set tables. distinct (map fst t)"
    by (auto simp: in_set_conv_nth)
  have m: "map_of r = foldl (\<lambda>m t. m ++ map_of t) Map.empty tables"
    unfolding r using fold_dict_update_merges[OF dist', of "[]"] by simp
  have d: "distinct (map fst r)"
    unfolding r by (rule fold_dict_update_distinct) simp
  have "fst ` set r = dom (map_of r)" by (simp add: dom_map_of_conv_image_fst)
  then have keys: "fst ` set r = (\<Union>t \<in> set tables. fst ` set t)"
    unfolding m by (simp add: dom_foldl_map_add)
  have last: "\<forall>j k v. j < length tables \<and> map_of (tables ! j) k = Some v
                  \<and> (\<forall>l. j < l \<and> l < length tables \<longrightarrow> map_of (tables ! l) k = None)
                \<longrightarrow> map_of r k = Some v"
    unfolding m by (auto intro: foldl_map_add_last)
  from res d keys m last
  have merged: "\<exists>merged. result = Keyed merged
            \<and> distinct (map fst merged)
            \<and> fst ` set merged = (\<Union>t \<in> set tables. fst ` set t)
            \<and> map_of merged = foldl (\<lambda>m t. m ++ map_of t) Map.empty tables
            \<and> (\<forall>j k v. j < length tables \<and> map_of (tables ! j) k = Some v
                  \<and> (\<forall>l. j < l \<and> l < length tables \<longrightarrow> map_of (tables ! l) k = None)
                \<longrightarrow> map_of merged k = Some v)"
    by blast
  from res r have res': "result = Keyed (fold (\<lambda>tmp acc. dict_update acc tmp) tables [])"
    by simp
  show "\<exists>queries states tables.
         list_all2 (\<lambda>ifn q. \<exists>node name. ifn = KStr (node @ '':'' @ name)
                      \<and> CHR '':'' \<notin> set node \<and> CHR '':'' \<notin> set name
                      \<and> q = [(''node'', node), (''ifgrp-name'', name)]) ?ks queries
       \<and> length states = Suc (length queries) \<and> hd states = s \<and> last states = s'
       \<and> length tables = length queries
       \<and> (\<forall>j < length queries.
             get_generic_get_iter server ''net-port-ifgrp-get'' (Some ''net-ifgrp-info'')
               (Multi [''node'', ''ifgrp-name'']) (queries ! j) ''attributes'' (states ! j)
             = (Inr (Keyed (tables ! j)), states ! Suc j))
       \<and> result = Keyed (fold (\<lambda>tmp acc. dict_update acc tmp) tables [])
       \<and> get_ifgrp_info (recording server) info (s, log)
           = (Inr result, (s', log @ map (Pair ''net-port-ifgrp-get'') queries))
       \<and> (\<forall>j < length tables. distinct (map fst (tables ! j)))
       \<and> (\<exists>merged. result = Keyed merged
            \<and> distinct (map fst merged)
            \<and> fst ` set merged = (\<Union>t \<in> set tables. fst ` set t)
            \<and> map_of merged = foldl (\<lambda>m t. m ++ map_of t) Map.empty tables
            \<and> (\<forall>j k v. j < length tables \<and> map_of (tables ! j) k = Some v
                  \<and> (\<forall>l. j < l \<and> l < length tables \<longrightarrow> map_of (tables ! l) k = None)
                \<longrightarrow> map_of merged k = Some v))"
    apply (rule exI[where x = queries])
    apply (rule exI[where x = states])
    apply (rule exI[where x = tables])
    using qs' len steps res' rec dist merged
    apply (intro conjI)
    apply assumption+
    done
qed

text \<open>
  A table of three ports, two of them interface groups: two lookups are sent, and the
  result holds the entry of each group.
\<close>

theorem ifgrp_info_derived_from_port_table_witness:
  "get_ifgrp_info (recording (sample_server ''''))
      [(''net_port_info'',
        Keyed [(KStr ''nodeA:a0a'', JObj [(''port_type'', JStr ''if_group'')]),
               (KStr ''nodeA:e0c'', JObj [(''port_type'', JStr ''physical'')]),
               (KStr ''nodeB:a0b'', JObj [(''port_type'', JStr ''if_group'')])])]
      ((), [])
     = (Inr (Keyed [(KStr ''nodeA:a0a'',
                     JObj [(''ifgrp_name'', JStr ''a0a''), (''node'', JStr ''nodeA''),
                           (''mode'', JStr ''multimode'')]),
                    (KStr ''nodeB:a0b'',
                     JObj [(''ifgrp_name'', JStr ''a0b''), (''node'', JStr ''nodeB''),
                           (''mode'', JStr ''multimode'')])]),
        ((), [(''net-port-ifgrp-get'', [(''node'', ''nodeA''), (''ifgrp-name'', ''a0a'')]),
              (''net-port-ifgrp-get'', [(''node'', ''nodeB''), (''ifgrp-name'', ''a0b'')])]))"
proof -
  let ?ports = "[(KStr ''nodeA:a0a'', JObj [(''port_type'', JStr ''if_group'')]),
               (KStr ''nodeA:e0c'', JObj [(''port_type'', JStr ''physical'')]),
               (KStr ''nodeB:a0b'', JObj [(''port_type'', JStr ''if_group'')])]"
  let ?info = "[(''net_port_info'', Keyed ?ports)]"
  let ?result = "Keyed [(KStr ''nodeA:a0a'',
                     JObj [(''ifgrp_name'', JStr ''a0a''), (''node'', JStr ''nodeA''),
                           (''mode'', JStr ''multimode'')]),
                    (KStr ''nodeB:a0b'',
                     JObj [(''ifgrp_name'', JStr ''a0b''), (''node'', JStr ''nodeB''),
                           (''mode'', JStr ''multimode'')])]"
  have tab: "map_of ?info ''net_port_info'' = Some (Keyed ?ports)"
    by simp
  have run: "get_ifgrp_info (sample_server '''') ?info () = (Inr ?result, ())"
    by (simp add: sample_defs)
  from ifgrp_info_derived_from_port_table[OF tab run, of "[]"]
  obtain queries where
    qs: "list_all2 (\<lambda>ifn q. \<exists>node name. ifn = KStr (node @ '':'' @ name)
                      \<and> CHR '':'' \<notin> set node \<and> CHR '':'' \<notin> set name
                      \<and> q = [(''node'', node), (''ifgrp-name'', name)])
            [KStr ''nodeA:a0a'', KStr ''nodeB:a0b''] queries"
    and log: "get_ifgrp_info (recording (sample_server '''')) ?info ((), [])
           = (Inr ?result, ((), [] @ map (Pair ''net-port-ifgrp-get'') queries))"
    by auto
  from qs have "list_all2 (\<lambda>ifn q. ifgrp_query ifn = Inr q)
      [KStr ''nodeA:a0a'', KStr ''nodeB:a0b''] queries"
    by (simp add: ifgrp_query_Inr)
  then have "queries = [[(''node'', ''nodeA''), (''ifgrp-name'', ''a0a'')],
                        [(''node'', ''nodeB''), (''ifgrp-name'', ''a0b'')]]"
    by (auto simp: list_all2_Cons1)
  with log show ?thesis by simp
qed

section \<open>The network-port table as a precondition\<close>

lemma select_ifgrps_key_error:
  "(\<forall>(ifn, port) \<in> set t. \<exists>m. port = JObj m) \<Longrightarrow>
   (\<exists>(ifn, port) \<in> set t. getitem port ''port_type'' = Inl KeyError) \<Longrightarrow>
   select_ifgrps t = Inl KeyError"
proof (induction t)
  case Nil
  then show ?case by simp
next
  case (Cons p t)
  obtain ifn port where p: "p = (ifn, port)" by (cases p)
  with Cons.prems(1) obtain m where m: "port = JObj m" by auto
  show ?case
  proof (cases "map_of m ''port_type''")
    case None
    with p m show ?thesis by simp
  next
    case (Some v)
    with Cons.prems(2) p m
    have "\<exists>(ifn, port) \<in> set t. getitem port ''port_type'' = Inl KeyError" by auto
    moreover from Cons.prems(1) have "\<forall>(ifn, port) \<in> set t. \<exists>m. port = JObj m" by simp
    ultimately have "select_ifgrps t = Inl KeyError" using Cons.IH by blast
    with p m Some show ?thesis by simp
  qed
qed

text \<open>
  Claim C10, as stated, fails in its last part: a table that is present and holds no port
  of type \<^verbatim>\<open>if_group\<close>, but a port record without the \<^verbatim>\<open>port_type\<close> field, does not give
  an empty interface-group table; \<^verbatim>\<open>net_port_info[ifn]['port_type']\<close> raises KeyError, and so
  does the whole run.
\<close>

theorem port_without_type_raises_key_error:
  "get_ifgrp_info untyped_port_server
      [(''net_port_info'',
        Keyed [(KStr ''nodeA:e0c'', JObj [(''node'', JStr ''nodeA''), (''port'', JStr ''e0c'')])])]
      () = (Inl KeyError, ())
   \<and> get_all untyped_port_server () = (Inl KeyError, ())"
  by (simp add: get_all_def catalog_def untyped_port_server_def max_records_def
        get_generic_get_iter_def call_api_def get_ifgrp_info_def record_step_def descend_def
        new_out_def join_colon_def replace_hyphen_def finditem_dict.simps)

text \<open>
  Claim C10, amended. If the network-port category is \<^verbatim>\<open>None\<close>, \<^verbatim>\<open>get_ifgrp_info\<close> raises
  AttributeError on \<^verbatim>\<open>net_port_info.keys()\<close>. In a run this happens when the response of
  \<^verbatim>\<open>net-port-get-iter\<close> has no \<^verbatim>\<open>attributes-list\<close> container: once the categories before
  the derived one are complete, \<^verbatim>\<open>get_all\<close> ends with AttributeError. If the table is
  present and every port record in it has a \<^verbatim>\<open>port_type\<close> field, none of them
  \<^verbatim>\<open>if_group\<close>, the interface-group category is the empty mapping, stored under its key.
  If the table is present, its records are mappings and one of them has no \<^verbatim>\<open>port_type\<close>
  field, the derivation raises KeyError.
\<close>

theorem absent_port_table_fails_ifgrp_step:
  "(map_of info ''net_port_info'' = Some Absent \<longrightarrow>
      get_ifgrp_info server info s = (Inl AttributeError, s))
   \<and> (run_steps server (take 1 catalog) [] s0 = (Inr info1, s1)
        \<and> server s1 ''net-port-get-iter'' max_records = (Inr resp, s2)
        \<and> map_of resp ''attributes-list'' = None
        \<and> run_steps server (take 8 catalog) [] s0 = (Inr info8, s8)
      \<longrightarrow> map_of info8 ''net_port_info'' = Some Absent
        \<and> get_all server s0 = (Inl AttributeError, s8))
   \<and> (map_of info' ''net_port_info'' = Some (Keyed net_port_info)
        \<and> (\<forall>(ifn, port) \<in> set net_port_info.
              \<exists>t. getitem port ''port_type'' = Inr t \<and> t \<noteq> JStr ''if_group'')
      \<longrightarrow> get_ifgrp_info server info' s = (Inr (Keyed []), s)
        \<and> run_step server (IfgrpInfo ''net_ifgrp_info'') info' s
            = (Inr (setitem ''net_ifgrp_info'' (Keyed []) info'), s)
        \<and> map_of (setitem ''net_ifgrp_info'' (Keyed []) info') ''net_ifgrp_info''
            = Some (Keyed []))
   \<and> (map_of info'' ''net_port_info'' = Some (Keyed untyped)
        \<and> (\<forall>(ifn, port) \<in> set untyped. \<exists>m. port = JObj m)
        \<and> (\<exists>(ifn, port) \<in> set untyped. getitem port ''port_type'' = Inl KeyError)
      \<longrightarrow> get_ifgrp_info server info'' s = (Inl KeyError, s)
        \<and> run_step server (IfgrpInfo ''net_ifgrp_info'') info'' s = (Inl KeyError, s))"
proof (intro conjI impI)
  assume "map_of info ''net_port_info'' = Some Absent"
  then show "get_ifgrp_info server info s = (Inl AttributeError, s)"
    by (simp add: get_ifgrp_info_def)
next
  assume a: "run_steps server (take 1 catalog) [] s0 = (Inr info1, s1)
        \<and> server s1 ''net-port-get-iter'' max_records = (Inr resp, s2)
        \<and> map_of resp ''attributes-list'' = None
        \<and> run_steps server (take 8 catalog) [] s0 = (Inr info8, s8)"
  have split: "take 8 catalog = take 1 catalog @
      (GetIter ''net_port_info'' ''net-port-get-iter'' ''net-port-info''
         (Multi [''node'', ''port'']) # take 6 (drop 2 catalog))"
    by (simp add: catalog_def)
  have port: "run_step server (GetIter ''net_port_info'' ''net-port-get-iter'' ''net-port-info''
         (Multi [''node'', ''port''])) info1 s1 = (Inr (setitem ''net_port_info'' Absent info1), s2)"
    using a by (simp add: get_generic_get_iter_def call_api_def)
  from a have "run_steps server (take 1 catalog @
      (GetIter ''net_port_info'' ''net-port-get-iter'' ''net-port-info''
         (Multi [''node'', ''port'']) # take 6 (drop 2 catalog))) [] s0 = (Inr info8, s8)"
    by (simp only: split)
  with a port have rest: "run_steps server (take 6 (drop 2 catalog))
      (setitem ''net_port_info'' Absent info1) s2 = (Inr info8, s8)"
    by (simp add: run_steps_append)
  have "''net_port_info'' \<notin> step_category ` set (take 6 (drop 2 catalog))"
    by (simp add: catalog_def)
  from run_steps_keeps[OF rest this]
  have m: "map_of info8 ''net_port_info'' = Some Absent" by (simp add: map_of_setitem)
  have i: "8 < length catalog" by (simp add: length_catalog)
  have st: "catalog ! 8 = IfgrpInfo ''net_ifgrp_info''" by (simp add: catalog_def)
  from a have pre: "run_steps server (take 8 catalog) [] s0 = (Inr info8, s8)" by simp
  have "run_step server (catalog ! 8) info8 s8 = (Inl AttributeError, s8)"
    using m st by (simp add: get_ifgrp_info_def)
  with get_all_at[OF i pre] have "get_all server s0 = (Inl AttributeError, s8)" by simp
  with m show "map_of info8 ''net_port_info'' = Some Absent" 
    and "get_all server s0 = (Inl AttributeError, s8)" by simp_all
next
  assume a: "map_of info' ''net_port_info'' = Some (Keyed net_port_info)
        \<and> (\<forall>(ifn, port) \<in> set net_port_info.
              \<exists>t. getitem port ''port_type'' = Inr t \<and> t \<noteq> JStr ''if_group'')"
  then have "select_ifgrps net_port_info = Inr []" by (intro select_ifgrps_none) simp
  with a have g: "get_ifgrp_info server info' s = (Inr (Keyed []), s)"
    by (simp add: get_ifgrp_info_def)
  then show "get_ifgrp_info server info' s = (Inr (Keyed []), s)"
    and "run_step server (IfgrpInfo ''net_ifgrp_info'') info' s
            = (Inr (setitem ''net_ifgrp_info'' (Keyed []) info'), s)"
    and "map_of (setitem ''net_ifgrp_info'' (Keyed []) info') ''net_ifgrp_info''
            = Some (Keyed [])"
    by (simp_all add: map_of_setitem)
next
  assume a: "map_of info'' ''net_port_info'' = Some (Keyed untyped)
        \<and> (\<forall>(ifn, port) \<in> set untyped. \<exists>m. port = JObj m)
        \<and> (\<exists>(ifn, port) \<in> set untyped. getitem port ''port_type'' = Inl KeyError)"
  then have "select_ifgrps untyped = Inl KeyError" by (intro select_ifgrps_key_error) simp_all
  with a have g: "get_ifgrp_info server info'' s = (Inl KeyError, s)"
    by (simp add: get_ifgrp_info_def)
  then show "get_ifgrp_info server info'' s = (Inl KeyError, s)"
    and "run_step server (IfgrpInfo ''net_ifgrp_info'') info'' s = (Inl KeyError, s)"
    by simp_all
qed

text \<open>
  A session whose responses have no records container; a table with one physical port; a
  table with a port record that has no type.
\<close>

theorem absent_port_table_fails_ifgrp_step_witness:
  "get_ifgrp_info bare_server [(''net_port_info'', Absent)] () = (Inl AttributeError, ())
   \<and> get_all bare_server () = (Inl AttributeError, ())
   \<and> get_ifgrp_info bare_server
        [(''net_port_info'',
          Keyed [(KStr ''nodeA:e0c'', JObj [(''port_type'', JStr ''physical'')])])] ()
      = (Inr (Keyed []), ())
   \<and> get_ifgrp_info bare_server
        [(''net_port_info'',
          Keyed [(KStr ''nodeA:e0c'', JObj [(''port_type'', JStr ''physical'')]),
                 (KStr ''nodeA:e0d'', JObj [(''node'', JStr ''nodeA'')])])] ()
      = (Inl KeyError, ())"
proof -
  have a: "map_of [(''net_port_info'', Absent)] ''net_port_info'' = Some Absent" by simp
  have b: "run_steps bare_server (take 1 catalog) [] () = (Inr [(''net_interface_info'', Absent)], ())
        \<and> bare_server () ''net-port-get-iter'' max_records = (Inr [(''num-records'', [])], ())
        \<and> map_of [(''num-records'', [])] ''attributes-list'' = None
        \<and> run_steps bare_server (take 8 catalog) [] ()
            = (Inr [(''net_interface_info'', Absent), (''net_port_info'', Absent),
                    (''cluster_node_info'', Absent), (''security_login_account_info'', Absent),
                    (''aggregate_info'', Absent), (''volume_info'', Absent),
                    (''lun_info'', Absent), (''storage_failover_info'', Absent)], ())"
    by (simp add: catalog_def bare_server_def get_generic_get_iter_def call_api_def)
  have c: "map_of [(''net_port_info'',
          Keyed [(KStr ''nodeA:e0c'', JObj [(''port_type'', JStr ''physical'')])])] ''net_port_info''
       = Some (Keyed [(KStr ''nodeA:e0c'', JObj [(''port_type'', JStr ''physical'')])])
        \<and> (\<forall>(ifn, port) \<in> set [(KStr ''nodeA:e0c'', JObj [(''port_type'', JStr ''physical'')])].
              \<exists>t. getitem port ''port_type'' = Inr t \<and> t \<noteq> JStr ''if_group'')"
    by simp
  have d: "map_of [(''net_port_info'',
          Keyed [(KStr ''nodeA:e0c'', JObj [(''port_type'', JStr ''physical'')]),
                 (KStr ''nodeA:e0d'', JObj [(''node'', JStr ''nodeA'')])])] ''net_port_info''
       = Some (Keyed [(KStr ''nodeA:e0c'', JObj [(''port_type'', JStr ''physical'')]),
                 (KStr ''nodeA:e0d'', JObj [(''node'', JStr ''nodeA'')])])
        \<and> (\<forall>(ifn, port) \<in> set [(KStr ''nodeA:e0c'', JObj [(''port_type'', JStr ''physical'')]),
                 (KStr ''nodeA:e0d'', JObj [(''node'', JStr ''nodeA'')])]. \<exists>m. port = JObj m)
        \<and> (\<exists>(ifn, port) \<in> set [(KStr ''nodeA:e0c'', JObj [(''port_type'', JStr ''physical'')]),
                 (KStr ''nodeA:e0d'', JObj [(''node'', JStr ''nodeA'')])].
              getitem port ''port_type'' = Inl KeyError)"
    by simp
  note inst = absent_port_table_fails_ifgrp_step[where server = bare_server and s = "()"]
  from inst[THEN conjunct1, THEN mp, OF a]
    inst[THEN conjunct2, THEN conjunct1, THEN mp, OF b]
    inst[THEN conjunct2, THEN conjunct2, THEN conjunct1, THEN mp, OF c]
    inst[THEN conjunct2, THEN conjunct2, THEN conjunct2, THEN mp, OF d]
  show ?thesis by simp
qed

end
